theory Spec2Isabelle
  imports Complex_Main "HOL-Library.Multiset"
begin

section \<open>The relational store\<close>

text \<open>
  The route handlers of the ArcticCare API read and write four tables through the ORM:
  \<^verbatim>\<open>users\<close>, \<^verbatim>\<open>badges\<close>, \<^verbatim>\<open>user_badges\<close> and \<^verbatim>\<open>contributions\<close>. A table is a list of rows in
  storage order. Columns that none of the embedded handlers reads or writes (email,
  password, role, icon, requirement, ...) and the generated primary keys of
  \<^verbatim>\<open>user_badges\<close> and \<^verbatim>\<open>contributions\<close> rows are left out. Timestamps are milliseconds since
  the epoch, as \<^verbatim>\<open>Date.getTime()\<close> returns them. The columns declared \<^verbatim>\<open>INTEGER\<close> are
  modelled as unbounded integers.
\<close>

record user =
  user_id :: string
  user_name :: string
  points :: int
  level :: int
  currentStreak :: int
  longestStreak :: int
  lastActiveAt :: int
  createdAt :: int

record badge =
  badge_id :: string
  badge_name :: string
  badge_description :: string
  badge_points :: int

record userBadge =
  ub_userId :: string
  ub_badgeId :: string
  unlockedAt :: int

record contribution =
  c_userId :: string
  c_type :: string
  c_points :: int
  c_description :: string
  c_createdAt :: int

record db =
  users :: "user list"
  badges :: "badge list"
  userBadges :: "userBadge list"
  contributions :: "contribution list"

text \<open>\<^verbatim>\<open>prisma.user.findUnique({ where: { id } })\<close>\<close>

definition user_findUnique :: "db \<Rightarrow> string \<Rightarrow> user option" where
  "user_findUnique d i = find (\<lambda>u. user_id u = i) (users d)"

text \<open>\<^verbatim>\<open>prisma.user.update({ where: { id }, data })\<close>: the row with that key is rewritten.\<close>

definition user_update :: "db \<Rightarrow> string \<Rightarrow> (user \<Rightarrow> user) \<Rightarrow> db" where
  "user_update d i f = d\<lparr>users := map (\<lambda>u. if user_id u = i then f u else u) (users d)\<rparr>"

text \<open>\<^verbatim>\<open>prisma.badge.findUnique({ where: { id: badgeId } })\<close>\<close>

definition badge_findUnique :: "db \<Rightarrow> string \<Rightarrow> badge option" where
  "badge_findUnique d b = find (\<lambda>x. badge_id x = b) (badges d)"

text \<open>\<^verbatim>\<open>prisma.userBadge.findUnique({ where: { userId_badgeId: { userId, badgeId } } })\<close>\<close>

definition userBadge_findUnique :: "db \<Rightarrow> string \<Rightarrow> string \<Rightarrow> userBadge option" where
  "userBadge_findUnique d i b = find (\<lambda>x. ub_userId x = i \<and> ub_badgeId x = b) (userBadges d)"

text \<open>\<^verbatim>\<open>prisma.userBadge.create\<close> and \<^verbatim>\<open>prisma.contribution.create\<close> append one row.\<close>

definition userBadge_create :: "db \<Rightarrow> userBadge \<Rightarrow> db" where
  "userBadge_create d r = d\<lparr>userBadges := userBadges d @ [r]\<rparr>"

definition contribution_create :: "db \<Rightarrow> contribution \<Rightarrow> db" where
  "contribution_create d r = d\<lparr>contributions := contributions d @ [r]\<rparr>"

text \<open>The failure responses of the handlers, with their HTTP status.\<close>

datatype error =
    PointsRequired
  | BadgeIdRequired
  | UserNotFound
  | BadgeNotFound
  | BadgeAlreadyUnlocked
  | ServerError

fun http_status :: "error \<Rightarrow> nat" where
  "http_status PointsRequired = 400"
| "http_status BadgeIdRequired = 400"
| "http_status UserNotFound = 404"
| "http_status BadgeNotFound = 404"
| "http_status BadgeAlreadyUnlocked = 400"
| "http_status ServerError = 500"

section \<open>PUT /:id/points\<close>

text \<open>
  The level expression of the handler, \<^verbatim>\<open>Math.floor(newPoints / 100) + 1\<close>: a division of
  numbers followed by \<^verbatim>\<open>Math.floor\<close>.
\<close>

definition levelOf :: "int \<Rightarrow> int" where
  "levelOf newPoints = \<lfloor>real_of_int newPoints / 100\<rfloor> + 1"

record points_response =
  pr_id :: string
  pr_points :: int
  pr_level :: int
  pr_leveledUp :: bool

text \<open>
  The body carries \<^verbatim>\<open>points\<close> (absent: \<^const>\<open>None\<close>) and \<^verbatim>\<open>action\<close>, which defaults to
  \<^verbatim>\<open>'add'\<close> when absent. Every action other than \<^verbatim>\<open>'set'\<close> adds.
\<close>

definition updatePoints ::
  "db \<Rightarrow> string \<Rightarrow> int option \<Rightarrow> string option \<Rightarrow> (error + points_response) \<times> db" where
  "updatePoints d i body_points body_action =
     (let action = (case body_action of None \<Rightarrow> ''add'' | Some a \<Rightarrow> a) in
      case body_points of
        None \<Rightarrow> (Inl PointsRequired, d)
      | Some pts \<Rightarrow>
          (case user_findUnique d i of
             None \<Rightarrow> (Inl UserNotFound, d)
           | Some usr \<Rightarrow>
               (let newPoints = (if action = ''set'' then pts else points usr + pts);
                    newLevel = levelOf newPoints;
                    d' = user_update d i (\<lambda>u. u\<lparr>points := newPoints, level := newLevel\<rparr>)
                in (Inr \<lparr>pr_id = i, pr_points = newPoints, pr_level = newLevel,
                          pr_leveledUp = (newLevel > level usr)\<rparr>, d'))))"

text \<open>The sum of the points of a user's ledger rows.\<close>

definition ledger_sum :: "db \<Rightarrow> string \<Rightarrow> int" where
  "ledger_sum d i = sum_list (map c_points (filter (\<lambda>c. c_userId c = i) (contributions d)))"

section \<open>Numbers of the host language\<close>

text \<open>
  The remainder operator \<^verbatim>\<open>%\<close> truncates towards zero: the result has the sign of the
  dividend.
\<close>

definition js_rem :: "int \<Rightarrow> int \<Rightarrow> int" where
  "js_rem a b = sgn a * (\<bar>a\<bar> mod \<bar>b\<bar>)"

text \<open>
  Numbers are IEEE 754 double-precision values. Where a result is rendered in decimal
  (the level progress), its division and multiplication are modelled as such: the exact
  result rounded to the nearest value with a significand of 53 bits, a tie going to the
  even significand. Where a quotient of integers is only rounded down or compared with
  an integer (level, day count, hours since the last activity), the exact quotient gives
  the same answer for integers below \<open>2\<^sup>5\<^sup>3\<close> and is used. The exponent of a positive number is
  found by halving or doubling, at most 1100 times, which covers the exponent range of
  the format; overflow, underflow and subnormal numbers are not modelled. These do not
  arise from columns declared \<^verbatim>\<open>INTEGER\<close> (32 bits).
\<close>

definition pow2 :: "int \<Rightarrow> real" where
  "pow2 k = (if 0 \<le> k then 2 ^ nat k else 1 / 2 ^ nat (- k))"

fun halvings :: "nat \<Rightarrow> real \<Rightarrow> int" where
  "halvings n x = (if n = 0 \<or> x < 2 then 0 else 1 + halvings (n - 1) (x / 2))"

declare halvings.simps [simp del]

fun doublings :: "nat \<Rightarrow> real \<Rightarrow> int" where
  "doublings n x = (if n = 0 \<or> 1 \<le> x then 0 else doublings (n - 1) (2 * x) - 1)"

declare doublings.simps [simp del]

text \<open>The binary exponent \<open>e\<close> of a positive number \<open>x\<close>: \<open>2\<^sup>e \<le> x < 2\<^sup>e\<^sup>+\<^sup>1\<close>.\<close>

definition binexp :: "real \<Rightarrow> int" where
  "binexp x = (if 1 \<le> x then halvings 1100 x else doublings 1100 x)"

text \<open>Rounding to the nearest integer, a tie going to the even one.\<close>

definition rnd_even :: "real \<Rightarrow> int" where
  "rnd_even t =
     (let f = \<lfloor>t\<rfloor>; r = t - real_of_int f
      in if r < 1 / 2 then f else if 1 / 2 < r then f + 1 else if even f then f else f + 1)"

definition round_double :: "real \<Rightarrow> real" where
  "round_double x =
     (if x = 0 then 0
      else sgn x * real_of_int (rnd_even (\<bar>x\<bar> / pow2 (binexp \<bar>x\<bar> - 52)))
             * pow2 (binexp \<bar>x\<bar> - 52))"

text \<open>
  A number that results from a division: a finite double, infinite or not a number. A
  division by zero gives an infinity with the sign of the dividend, or not a number for
  a zero dividend.
\<close>

datatype jsnum = Num real | PosInf | NegInf | NaN

definition js_div :: "int \<Rightarrow> int \<Rightarrow> jsnum" where
  "js_div a b =
     (if b = 0 then (if a = 0 then NaN else if 0 < a then PosInf else NegInf)
      else Num (round_double (real_of_int a / real_of_int b)))"

fun js_times :: "jsnum \<Rightarrow> real \<Rightarrow> jsnum" where
  "js_times (Num x) k = Num (round_double (x * k))"
| "js_times v k = v"

text \<open>\<^verbatim>\<open>Math.min(v, 100)\<close>\<close>

fun js_min :: "jsnum \<Rightarrow> real \<Rightarrow> jsnum" where
  "js_min (Num x) k = Num (min x k)"
| "js_min PosInf k = Num k"
| "js_min NegInf k = NegInf"
| "js_min NaN k = NaN"

text \<open>
  \<^verbatim>\<open>v.toFixed(1)\<close> renders the exact value of the double with one digit after the point:
  of the multiples of one tenth the nearest to the magnitude, the larger of two equally
  near ones, with the sign of the number. The model keeps the number that the rendered
  text denotes.
\<close>

fun toFixed1 :: "jsnum \<Rightarrow> jsnum" where
  "toFixed1 (Num x) = Num (sgn x * real_of_int \<lfloor>\<bar>x\<bar> * 10 + 1 / 2\<rfloor> / 10)"
| "toFixed1 v = v"

text \<open>A template literal renders an integer in decimal.\<close>

definition digit_char :: "nat \<Rightarrow> char" where
  "digit_char n = ''0123456789'' ! (n mod 10)"

fun string_of_nat :: "nat \<Rightarrow> string" where
  "string_of_nat n =
     (if n < 10 then [digit_char n] else string_of_nat (n div 10) @ [digit_char (n mod 10)])"

declare string_of_nat.simps [simp del]

definition string_of_int :: "int \<Rightarrow> string" where
  "string_of_int k = (if k < 0 then ''-'' @ string_of_nat (nat (- k)) else string_of_nat (nat k))"

section \<open>POST /:id/badges\<close>

record unlock_response =
  ur_id :: string
  ur_name :: string
  ur_description :: string
  ur_pointsEarned :: int

text \<open>
  \<^verbatim>\<open>!badgeId\<close> holds for an absent and for an empty id. The rows created take their
  timestamp default from the clock, \<open>now\<close>.
\<close>

definition unlockBadge ::
  "db \<Rightarrow> string \<Rightarrow> string option \<Rightarrow> int \<Rightarrow> (error + unlock_response) \<times> db" where
  "unlockBadge d i body_badgeId now =
     (case body_badgeId of
        None \<Rightarrow> (Inl BadgeIdRequired, d)
      | Some badgeId \<Rightarrow>
          if badgeId = [] then (Inl BadgeIdRequired, d)
          else
            (case user_findUnique d i of
               None \<Rightarrow> (Inl UserNotFound, d)
             | Some usr \<Rightarrow>
                 (case badge_findUnique d badgeId of
                    None \<Rightarrow> (Inl BadgeNotFound, d)
                  | Some bdg \<Rightarrow>
                      (case userBadge_findUnique d i badgeId of
                         Some existing \<Rightarrow> (Inl BadgeAlreadyUnlocked, d)
                       | None \<Rightarrow>
                           (let d1 = userBadge_create d
                                  \<lparr>ub_userId = i, ub_badgeId = badgeId, unlockedAt = now\<rparr>;
                                d2 = user_update d1 i
                                  (\<lambda>u. u\<lparr>points := points u + badge_points bdg\<rparr>);
                                d3 = contribution_create d2
                                  \<lparr>c_userId = i, c_type = ''badge_unlocked'',
                                   c_points = badge_points bdg,
                                   c_description = ''Desbloqueou badge: '' @ badge_name bdg,
                                   c_createdAt = now\<rparr>
                            in (Inr \<lparr>ur_id = badge_id bdg, ur_name = badge_name bdg,
                                      ur_description = badge_description bdg,
                                      ur_pointsEarned = badge_points bdg\<rparr>, d3))))))"

section \<open>GET /:id/streak\<close>

text \<open>The milestone table, rewards without their pictograph.\<close>

definition milestones :: "(int \<times> string) list" where
  "milestones =
     [(7, ''Semana de Fogo''), (14, ''Duas Semanas''), (30, ''Mes Completo''),
      (60, ''Dois Meses''), (90, ''Trimestre''), (180, ''Meio Ano''), (365, ''Um Ano'')]"

definition getNextStreakMilestone :: "int \<Rightarrow> int \<times> string" where
  "getNextStreakMilestone cs =
     (case find (\<lambda>m. cs < fst m) milestones of
        Some m \<Rightarrow> m
      | None \<Rightarrow> (365 * 2, ''Dois Anos''))"

definition hoursSince :: "int \<Rightarrow> int \<Rightarrow> real" where
  "hoursSince now lastActive = real_of_int (now - lastActive) / (1000 * 60 * 60)"

record streak_view =
  sv_userId :: string
  sv_currentStreak :: int
  sv_longestStreak :: int
  sv_lastActiveAt :: int
  sv_streakActive :: bool
  sv_nextMilestone :: "int \<times> string"

definition getStreak :: "db \<Rightarrow> string \<Rightarrow> int \<Rightarrow> (error + streak_view) \<times> db" where
  "getStreak d i now =
     (case user_findUnique d i of
        None \<Rightarrow> (Inl UserNotFound, d)
      | Some usr \<Rightarrow>
          (let hoursSinceActive = hoursSince now (lastActiveAt usr);
               streakActive = (hoursSinceActive < 48)
           in (Inr \<lparr>sv_userId = user_id usr,
                     sv_currentStreak = (if streakActive then currentStreak usr else 0),
                     sv_longestStreak = longestStreak usr,
                     sv_lastActiveAt = lastActiveAt usr,
                     sv_streakActive = streakActive,
                     sv_nextMilestone = getNextStreakMilestone (currentStreak usr)\<rparr>, d)))"

section \<open>PUT /:id/streak\<close>

definition daysSince :: "int \<Rightarrow> int \<Rightarrow> int" where
  "daysSince now lastActive = \<lfloor>real_of_int (now - lastActive) / (1000 * 60 * 60 * 24)\<rfloor>"

record streak_response =
  sr_message :: string
  sr_currentStreak :: int
  sr_longestStreak :: int
  sr_lastActiveAt :: int
  sr_streakBroken :: bool

definition updateStreak :: "db \<Rightarrow> string \<Rightarrow> int \<Rightarrow> (error + streak_response) \<times> db" where
  "updateStreak d i now =
     (case user_findUnique d i of
        None \<Rightarrow> (Inl UserNotFound, d)
      | Some usr \<Rightarrow>
          (let daysSinceActive = daysSince now (lastActiveAt usr);
               newStreak =
                 (if daysSinceActive = 0 then currentStreak usr
                  else if daysSinceActive = 1 then currentStreak usr + 1
                  else 1);
               streakBroken = (\<not> (daysSinceActive = 0 \<or> daysSinceActive = 1));
               newLongest = max newStreak (longestStreak usr);
               d1 = user_update d i
                 (\<lambda>u. u\<lparr>currentStreak := newStreak, longestStreak := newLongest,
                        lastActiveAt := now\<rparr>);
               d3 =
                 (if newStreak > currentStreak usr \<and> js_rem newStreak 7 = 0 then
                    (let bonusPoints = newStreak;
                         d2 = user_update d1 i (\<lambda>u. u\<lparr>points := points u + bonusPoints\<rparr>)
                     in contribution_create d2
                          \<lparr>c_userId = i, c_type = ''streak_bonus'', c_points = bonusPoints,
                           c_description = ''Streak de '' @ string_of_int newStreak @ '' dias!'',
                           c_createdAt = now\<rparr>)
                  else d1)
           in (Inr \<lparr>sr_message =
                       (if streakBroken then ''Streak reiniciado'' else ''Streak atualizado!''),
                     sr_currentStreak = newStreak, sr_longestStreak = newLongest,
                     sr_lastActiveAt = now, sr_streakBroken = streakBroken\<rparr>, d3)))"

text \<open>The invariant of the data model on the streak counters, for every stored user.\<close>

definition streak_inv :: "db \<Rightarrow> bool" where
  "streak_inv d = list_all (\<lambda>u. currentStreak u \<le> longestStreak u) (users d)"

text \<open>
  The effect of a streak touch on the touched user, spelled out over integer division;
  the lemmas below show that the handler computes it.
\<close>

definition touch_streak :: "user \<Rightarrow> int \<Rightarrow> int" where
  "touch_streak u now =
     (let days = (now - lastActiveAt u) div 86400000 in
      if days = 0 then currentStreak u else if days = 1 then currentStreak u + 1 else 1)"

definition touch_bonus :: "user \<Rightarrow> int \<Rightarrow> bool" where
  "touch_bonus u now \<longleftrightarrow> touch_streak u now > currentStreak u \<and> touch_streak u now mod 7 = 0"

definition touched :: "user \<Rightarrow> int \<Rightarrow> user" where
  "touched u now =
     u\<lparr>currentStreak := touch_streak u now,
       longestStreak := max (touch_streak u now) (longestStreak u),
       lastActiveAt := now,
       points := (if touch_bonus u now then points u + touch_streak u now else points u)\<rparr>"

section \<open>Rank and level progress\<close>

text \<open>\<^verbatim>\<open>prisma.user.count({ where: { points: { gt: p } } })\<close>\<close>

definition user_count_points_gt :: "db \<Rightarrow> int \<Rightarrow> nat" where
  "user_count_points_gt d p = length (filter (\<lambda>u. points u > p) (users d))"

text \<open>The number of ledger rows of a user, \<^verbatim>\<open>_count.contributions\<close>.\<close>

definition count_contributions :: "db \<Rightarrow> string \<Rightarrow> nat" where
  "count_contributions d i = length (filter (\<lambda>c. c_userId c = i) (contributions d))"

text \<open>
  GET /user/:userId of the statistics router. Of the response, the user part and the
  ledger count are kept; the groupings of issues and contributions are not.
\<close>

record stats_response =
  st_id :: string
  st_name :: string
  st_points :: int
  st_rank :: int
  st_totalContributions :: nat

definition getUserStats :: "db \<Rightarrow> string \<Rightarrow> (error + stats_response) \<times> db" where
  "getUserStats d userId =
     (case user_findUnique d userId of
        None \<Rightarrow> (Inl UserNotFound, d)
      | Some usr \<Rightarrow>
          (let usersAbove = user_count_points_gt d (points usr)
           in (Inr \<lparr>st_id = user_id usr, st_name = user_name usr, st_points = points usr,
                     st_rank = int usersAbove + 1,
                     st_totalContributions = count_contributions d userId\<rparr>, d)))"

text \<open>
  GET /:id/gamification. The gamification and streak parts of the response are kept; the
  badge list and the activity counts are not.
\<close>

record gamification_response =
  g_points :: int
  g_level :: int
  g_rank :: int
  g_levelProgress :: jsnum
  g_pointsToNextLevel :: int
  g_streak_current :: int
  g_streak_longest :: int
  g_streak_lastActive :: int

definition getGamification :: "db \<Rightarrow> string \<Rightarrow> (error + gamification_response) \<times> db" where
  "getGamification d i =
     (case user_findUnique d i of
        None \<Rightarrow> (Inl UserNotFound, d)
      | Some usr \<Rightarrow>
          (let usersAbove = user_count_points_gt d (points usr);
               pointsForNextLevel = level usr * 100;
               pointsInCurrentLevel = js_rem (points usr) 100;
               levelProgress = js_times (js_div pointsInCurrentLevel pointsForNextLevel) 100
           in (Inr \<lparr>g_points = points usr, g_level = level usr,
                     g_rank = int usersAbove + 1,
                     g_levelProgress = toFixed1 (js_min levelProgress 100),
                     g_pointsToNextLevel = pointsForNextLevel - pointsInCurrentLevel,
                     g_streak_current = currentStreak usr,
                     g_streak_longest = longestStreak usr,
                     g_streak_lastActive = lastActiveAt usr\<rparr>, d)))"

section \<open>GET /api/ranking\<close>

text \<open>
  \<^verbatim>\<open>orderBy: { points: 'desc' }\<close>. The order among users of equal points is the store's
  own; the model keeps their storage order.
\<close>

definition orderBy_points_desc :: "user list \<Rightarrow> user list" where
  "orderBy_points_desc us = sort_key (\<lambda>u. - points u) us"

record ranking_entry =
  re_rank :: int
  re_id :: string
  re_name :: string
  re_points :: int
  re_contributions :: nat
  re_memberSince :: int

record ranking_response =
  rr_ranking :: "ranking_entry list"
  rr_page :: int
  rr_limit :: nat
  rr_total :: nat
  rr_totalPages :: "int option"

text \<open>
  The query gives \<^verbatim>\<open>type\<close> (default \<^verbatim>\<open>'global'\<close>) and the parsed \<^verbatim>\<open>limit\<close> and \<^verbatim>\<open>page\<close>. The
  first instant of the current month in local time comes from the date library and is
  the parameter \<open>startOfMonth\<close>. The store rejects a negative \<^verbatim>\<open>skip\<close>, which the handler
  answers with status 500. \<^verbatim>\<open>Math.ceil(total / take)\<close> is not finite for \<^verbatim>\<open>take = 0\<close> and
  is then serialised as null.
\<close>

definition getRanking ::
  "(int \<Rightarrow> int) \<Rightarrow> db \<Rightarrow> int \<Rightarrow> string option \<Rightarrow> nat \<Rightarrow> int
     \<Rightarrow> (error + ranking_response) \<times> db" where
  "getRanking startOfMonth d now query_type take' page =
     (let type = (case query_type of None \<Rightarrow> ''global'' | Some t \<Rightarrow> t);
          skip = (page - 1) * int take';
          dateFilter = (if type = ''monthly'' then Some (startOfMonth now) else None)
      in if skip < 0 then (Inl ServerError, d)
         else
           (let found = take take' (drop (nat skip) (orderBy_points_desc (users d)));
                total = length (users d);
                ranking = map (\<lambda>(index, usr).
                    \<lparr>re_rank = skip + int index + 1, re_id = user_id usr,
                     re_name = user_name usr, re_points = points usr,
                     re_contributions = count_contributions d (user_id usr),
                     re_memberSince = createdAt usr\<rparr>) (enumerate 0 found)
            in (Inr \<lparr>rr_ranking = ranking, rr_page = page, rr_limit = take',
                      rr_total = total,
                      rr_totalPages =
                        (if take' = 0 then None
                         else Some \<lceil>real total / real take'\<rceil>)\<rparr>, d)))"

section \<open>Scenario data\<close>

text \<open>
  The three demo users of the seed script with their points, and its first badge. The
  streak counters are chosen for the scenarios below.
\<close>

definition maria :: user where
  "maria = \<lparr>user_id = ''A'', user_name = ''Maria Silva'', points = 450, level = 1,
            currentStreak = 0, longestStreak = 0, lastActiveAt = 0, createdAt = 0\<rparr>"

definition joao :: user where
  "joao = \<lparr>user_id = ''B'', user_name = ''Joao Santos'', points = 320, level = 1,
           currentStreak = 6, longestStreak = 6, lastActiveAt = 0, createdAt = 1\<rparr>"

definition ana :: user where
  "ana = \<lparr>user_id = ''C'', user_name = ''Ana Costa'', points = 280, level = 1,
          currentStreak = 5, longestStreak = 9, lastActiveAt = 0, createdAt = 2\<rparr>"

definition primeiro_reporte :: badge where
  "primeiro_reporte = \<lparr>badge_id = ''b1'', badge_name = ''Primeiro Reporte'',
     badge_description = ''Reportou sua primeira issue ambiental'', badge_points = 10\<rparr>"

definition seed :: db where
  "seed = \<lparr>users = [maria, joao, ana], badges = [primeiro_reporte], userBadges = [],
           contributions = []\<rparr>"

definition day_ms :: int where
  "day_ms = 1000 * 60 * 60 * 24"

text \<open>The scenario data with a ledger whose rows sum to the points of the first two users.\<close>

definition ledgered :: db where
  "ledgered = seed\<lparr>contributions :=
     [\<lparr>c_userId = ''A'', c_type = ''issue_reported'', c_points = 400,
       c_description = ''Reportou'', c_createdAt = 0\<rparr>,
      \<lparr>c_userId = ''B'', c_type = ''issue_reported'', c_points = 320,
       c_description = ''Reportou'', c_createdAt = 0\<rparr>,
      \<lparr>c_userId = ''A'', c_type = ''comment'', c_points = 50,
       c_description = ''Comentou'', c_createdAt = 1\<rparr>]\<rparr>"

text \<open>The scenario data after the first user has unlocked the badge.\<close>

definition unlocked :: db where
  "unlocked = seed\<lparr>users := [maria\<lparr>points := 460\<rparr>, joao, ana],
     userBadges := [\<lparr>ub_userId = ''A'', ub_badgeId = ''b1'', unlockedAt = 5\<rparr>],
     contributions :=
       [\<lparr>c_userId = ''A'', c_type = ''badge_unlocked'', c_points = 10,
         c_description = ''Desbloqueou badge: Primeiro Reporte'', c_createdAt = 5\<rparr>]\<rparr>"

text \<open>Forty-eight hours, in milliseconds.\<close>

definition grace_ms :: int where
  "grace_ms = 48 * (1000 * 60 * 60)"

text \<open>A store with one user of 250 points at level 3.\<close>

definition leveled :: db where
  "leveled = \<lparr>users = [\<lparr>user_id = ''D'', user_name = ''Admin ArcticCare'', points = 250,
       level = 3, currentStreak = 0, longestStreak = 0, lastActiveAt = 0, createdAt = 0\<rparr>],
     badges = [], userBadges = [], contributions = []\<rparr>"

text \<open>
  The points a user earned since an instant: the sum over the ledger rows of the user
  created at or after it. The ranking handler never computes it; it serves to state what
  a ranking restricted to the current month would order by.
\<close>

definition points_since :: "db \<Rightarrow> string \<Rightarrow> int \<Rightarrow> int" where
  "points_since d i t =
     sum_list (map c_points (filter (\<lambda>c. c_userId c = i \<and> t \<le> c_createdAt c) (contributions d)))"

text \<open>
  The scenario data where the first user earned all points before the instant 1000 and
  the second user earned all points after it.
\<close>

definition windowed :: db where
  "windowed = seed\<lparr>contributions :=
     [\<lparr>c_userId = ''A'', c_type = ''issue_reported'', c_points = 450,
       c_description = ''Reportou'', c_createdAt = 0\<rparr>,
      \<lparr>c_userId = ''B'', c_type = ''issue_reported'', c_points = 320,
       c_description = ''Reportou'', c_createdAt = 2000\<rparr>]\<rparr>"

text \<open>
  A store with a user of 329 points at level 4, whose exact progress 7.25 lies midway
  between two tenths, and a user of -50 points at level 0, both as PUT /:id/points
  stores them.
\<close>

definition progress_cases :: db where
  "progress_cases = \<lparr>users =
      [\<lparr>user_id = ''T'', user_name = ''Tie'', points = 329, level = 4,
         currentStreak = 0, longestStreak = 0, lastActiveAt = 0, createdAt = 0\<rparr>,
       \<lparr>user_id = ''Z'', user_name = ''Zero'', points = - 50, level = 0,
         currentStreak = 0, longestStreak = 0, lastActiveAt = 0, createdAt = 1\<rparr>],
     badges = [], userBadges = [], contributions = []\<rparr>"


text \<open>The three demo users stored in another order.\<close>

definition shuffled :: db where
  "shuffled = seed\<lparr>users := [ana, maria, joao]\<rparr>"

section \<open>Facts about the store\<close>

lemma find_update_same:
  assumes "find (\<lambda>u. user_id u = i) us = Some u"
    and "\<And>x. user_id (f x) = user_id x"
  shows "find (\<lambda>u. user_id u = i) (map (\<lambda>u. if user_id u = i then f u else u) us) = Some (f u)"
  using assms by (induction us) (auto split: if_splits)

lemma find_update_other:
  assumes "j \<noteq> i" and "\<And>x. user_id (f x) = user_id x"
  shows "find (\<lambda>u. user_id u = j) (map (\<lambda>u. if user_id u = i then f u else u) us)
         = find (\<lambda>u. user_id u = j) us"
  using assms by (induction us) auto

lemma user_update_same:
  assumes "user_findUnique d i = Some u" and "\<And>x. user_id (f x) = user_id x"
  shows "user_findUnique (user_update d i f) i = Some (f u)"
  using assms by (simp add: user_findUnique_def user_update_def find_update_same)

lemma user_update_other:
  assumes "j \<noteq> i" and "\<And>x. user_id (f x) = user_id x"
  shows "user_findUnique (user_update d i f) j = user_findUnique d j"
  using assms by (simp add: user_findUnique_def user_update_def find_update_other)

lemma floor_div_100: "\<lfloor>real_of_int p / 100\<rfloor> = p div 100"
proof -
  have "\<lfloor>real_of_int p / real_of_int 100\<rfloor> = p div 100"
    by (rule floor_divide_of_int_eq)
  then show ?thesis by simp
qed


lemma user_update_sel [simp]:
  "users (user_update d i f) = map (\<lambda>u. if user_id u = i then f u else u) (users d)"
  "badges (user_update d i f) = badges d"
  "userBadges (user_update d i f) = userBadges d"
  "contributions (user_update d i f) = contributions d"
  by (simp_all add: user_update_def)

lemma contribution_create_sel [simp]:
  "users (contribution_create d r) = users d"
  "badges (contribution_create d r) = badges d"
  "userBadges (contribution_create d r) = userBadges d"
  "contributions (contribution_create d r) = contributions d @ [r]"
  by (simp_all add: contribution_create_def)

lemma userBadge_create_sel [simp]:
  "users (userBadge_create d r) = users d"
  "badges (userBadge_create d r) = badges d"
  "userBadges (userBadge_create d r) = userBadges d @ [r]"
  "contributions (userBadge_create d r) = contributions d"
  by (simp_all add: userBadge_create_def)

lemma findUnique_create [simp]:
  "user_findUnique (contribution_create d r) j = user_findUnique d j"
  "user_findUnique (userBadge_create d q) j = user_findUnique d j"
  by (simp_all add: user_findUnique_def)

lemma ledger_sum_user_update [simp]: "ledger_sum (user_update d i f) j = ledger_sum d j"
  by (simp add: ledger_sum_def)

lemma levelOf_div: "levelOf p = p div 100 + 1"
  by (simp add: levelOf_def floor_div_100)

lemma updatePoints_found:
  assumes "user_findUnique d i = Some u"
  shows "updatePoints d i (Some pts) act =
     (let np = (if act = Some ''set'' then pts else points u + pts) in
      (Inr \<lparr>pr_id = i, pr_points = np, pr_level = levelOf np,
            pr_leveledUp = (levelOf np > level u)\<rparr>,
       user_update d i (\<lambda>x. x\<lparr>points := np, level := levelOf np\<rparr>)))"
  using assms by (cases act) (simp_all add: updatePoints_def Let_def)

lemma daysSince_div: "daysSince now l = (now - l) div 86400000"
proof -
  have "\<lfloor>real_of_int (now - l) / real_of_int 86400000\<rfloor> = (now - l) div 86400000"
    by (rule floor_divide_of_int_eq)
  then show ?thesis by (simp add: daysSince_def)
qed

lemma js_rem_7: "js_rem a 7 = 0 \<longleftrightarrow> a mod 7 = 0"
proof (cases "0 \<le> a")
  case True
  then show ?thesis by (simp add: js_rem_def sgn_if)
next
  case False
  then have "\<bar>a\<bar> = - a" by simp
  moreover have "(- a) mod 7 = 0 \<longleftrightarrow> a mod 7 = 0"
    by (simp add: mod_eq_0_iff_dvd)
  ultimately show ?thesis using False by (simp add: js_rem_def sgn_if)
qed

lemma updateStreak_unfold:
  assumes "user_findUnique d i = Some u"
  shows "updateStreak d i now =
     (Inr \<lparr>sr_message =
             (if \<not> ((now - lastActiveAt u) div 86400000 = 0 \<or>
                     (now - lastActiveAt u) div 86400000 = 1)
              then ''Streak reiniciado'' else ''Streak atualizado!''),
           sr_currentStreak = touch_streak u now,
           sr_longestStreak = max (touch_streak u now) (longestStreak u),
           sr_lastActiveAt = now,
           sr_streakBroken = (\<not> ((now - lastActiveAt u) div 86400000 = 0 \<or>
                                  (now - lastActiveAt u) div 86400000 = 1))\<rparr>,
      if touch_bonus u now then
        contribution_create
          (user_update
             (user_update d i
                (\<lambda>x. x\<lparr>currentStreak := touch_streak u now,
                       longestStreak := max (touch_streak u now) (longestStreak u),
                       lastActiveAt := now\<rparr>))
             i (\<lambda>x. x\<lparr>points := points x + touch_streak u now\<rparr>))
          \<lparr>c_userId = i, c_type = ''streak_bonus'', c_points = touch_streak u now,
           c_description = ''Streak de '' @ string_of_int (touch_streak u now) @ '' dias!'',
           c_createdAt = now\<rparr>
      else
        user_update d i
          (\<lambda>x. x\<lparr>currentStreak := touch_streak u now,
                 longestStreak := max (touch_streak u now) (longestStreak u),
                 lastActiveAt := now\<rparr>))"
  using assms
  by (simp add: updateStreak_def Let_def daysSince_div js_rem_7 touch_streak_def
      touch_bonus_def)

lemma updateStreak_found:
  assumes "user_findUnique d i = Some u"
  shows "\<exists>r d'. updateStreak d i now = (Inr r, d') \<and>
     user_findUnique d' i = Some (touched u now) \<and>
     sr_currentStreak r = touch_streak u now \<and>
     sr_longestStreak r = max (touch_streak u now) (longestStreak u) \<and>
     sr_lastActiveAt r = now \<and>
     sr_streakBroken r = (\<not> ((now - lastActiveAt u) div 86400000 = 0 \<or>
                              (now - lastActiveAt u) div 86400000 = 1)) \<and>
     contributions d' =
       (if touch_bonus u now then contributions d @
           [\<lparr>c_userId = i, c_type = ''streak_bonus'', c_points = touch_streak u now,
             c_description = ''Streak de '' @ string_of_int (touch_streak u now) @ '' dias!'',
             c_createdAt = now\<rparr>]
        else contributions d) \<and>
     (\<forall>j. j \<noteq> i \<longrightarrow> user_findUnique d' j = user_findUnique d j) \<and>
     badges d' = badges d \<and> userBadges d' = userBadges d"
proof -
  define ns where "ns = touch_streak u now"
  let ?f1 = "\<lambda>x::user. x\<lparr>currentStreak := ns, longestStreak := max ns (longestStreak u),
                 lastActiveAt := now\<rparr>"
  let ?f2 = "\<lambda>x::user. x\<lparr>points := points x + ns\<rparr>"
  have l1: "user_findUnique (user_update d i ?f1) i = Some (?f1 u)"
    by (rule user_update_same [OF assms]) simp
  have l2: "user_findUnique (user_update (user_update d i ?f1) i ?f2) i = Some (?f2 (?f1 u))"
    by (rule user_update_same [OF l1]) simp
  have o1: "user_findUnique (user_update d i ?f1) j = user_findUnique d j" if "j \<noteq> i" for j
    using that by (intro user_update_other) simp_all
  have o2: "user_findUnique (user_update (user_update d i ?f1) i ?f2) j = user_findUnique d j"
    if "j \<noteq> i" for j
  proof -
    have "user_findUnique (user_update (user_update d i ?f1) i ?f2) j
        = user_findUnique (user_update d i ?f1) j"
      using that by (intro user_update_other) simp_all
    then show ?thesis using o1 [OF that] by simp
  qed
  show ?thesis
  proof (cases "touch_bonus u now")
    case True
    then show ?thesis
      unfolding updateStreak_unfold [OF assms] touched_def ns_def [symmetric]
      using l2 o2 by simp
  next
    case False
    then show ?thesis
      unfolding updateStreak_unfold [OF assms] touched_def ns_def [symmetric]
      using l1 o1 by simp
  qed
qed

lemma badge_findUnique_frame [simp]:
  "badge_findUnique (user_update d i f) b = badge_findUnique d b"
  "badge_findUnique (contribution_create d r) b = badge_findUnique d b"
  "badge_findUnique (userBadge_create d q) b = badge_findUnique d b"
  by (simp_all add: badge_findUnique_def)

lemma userBadge_findUnique_frame [simp]:
  "userBadge_findUnique (user_update d i f) j b = userBadge_findUnique d j b"
  "userBadge_findUnique (contribution_create d r) j b = userBadge_findUnique d j b"
  by (simp_all add: userBadge_findUnique_def)

lemma find_append_new:
  assumes "find P xs = None" and "P x"
  shows "find P (xs @ [x]) = Some x"
  using assms by (induction xs) (auto split: if_splits)

lemma filter_find_None:
  assumes "find P xs = None"
  shows "filter P xs = []"
  using assms by (induction xs) (auto split: if_splits)

lemma unlockBadge_locked:
  assumes "user_findUnique d i = Some u" and "badge_findUnique d b = Some g" and "b \<noteq> []"
    and "userBadge_findUnique d i b = Some e"
  shows "unlockBadge d i (Some b) now = (Inl BadgeAlreadyUnlocked, d)"
  using assms by (simp add: unlockBadge_def)

lemma unlockBadge_fresh:
  assumes "user_findUnique d i = Some u" and "badge_findUnique d b = Some g" and "b \<noteq> []"
    and "userBadge_findUnique d i b = None"
  shows "unlockBadge d i (Some b) now =
     (Inr \<lparr>ur_id = badge_id g, ur_name = badge_name g, ur_description = badge_description g,
           ur_pointsEarned = badge_points g\<rparr>,
      contribution_create
        (user_update
           (userBadge_create d \<lparr>ub_userId = i, ub_badgeId = b, unlockedAt = now\<rparr>)
           i (\<lambda>x. x\<lparr>points := points x + badge_points g\<rparr>))
        \<lparr>c_userId = i, c_type = ''badge_unlocked'', c_points = badge_points g,
         c_description = ''Desbloqueou badge: '' @ badge_name g, c_createdAt = now\<rparr>)"
  using assms by (simp add: unlockBadge_def Let_def)

lemma unlockBadge_error_frame:
  assumes "unlockBadge d i bb now = (Inl e, d')"
  shows "d' = d"
  using assms
  by (auto simp: unlockBadge_def Let_def split: option.splits if_splits)

lemma hoursSince_lt_48: "hoursSince now l < 48 \<longleftrightarrow> now - l < 172800000"
proof -
  have "hoursSince now l < 48 \<longleftrightarrow> real_of_int (now - l) < 48 * 3600000"
    unfolding hoursSince_def by (simp add: field_simps)
  also have "\<dots> \<longleftrightarrow> real_of_int (now - l) < real_of_int 172800000"
    by simp
  also have "\<dots> \<longleftrightarrow> now - l < 172800000"
    by (rule of_int_less_iff)
  finally show ?thesis .
qed

lemma round_half_near:
  fixes a :: real
  shows "\<bar>real_of_int \<lfloor>a + 1 / 2\<rfloor> - a\<bar> \<le> 1 / 2"
  by linarith

lemma toFixed1_near:
  assumes "toFixed1 (Num x) = Num y"
  shows "\<bar>y - x\<bar> \<le> 1 / 20 \<and> (\<exists>k::int. y = real_of_int k / 10)"
proof -
  define n where "n = \<lfloor>\<bar>x\<bar> * 10 + 1 / 2\<rfloor>"
  have y: "y = sgn x * real_of_int n / 10"
    using assms by (simp add: n_def)
  have lo: "real_of_int n \<le> \<bar>x\<bar> * 10 + 1 / 2" and hi: "\<bar>x\<bar> * 10 + 1 / 2 < real_of_int n + 1"
    unfolding n_def by linarith+
  have "\<bar>y - x\<bar> \<le> 1 / 20"
  proof -
    consider "x = 0" | "0 < x" | "x < 0" by linarith
    then show ?thesis
    proof cases
      case 1
      then have "n = 0" by (simp add: n_def)
      with 1 show ?thesis using y by simp
    next
      case 2
      then have "y = real_of_int n / 10" and "\<bar>x\<bar> = x" using y by simp_all
      with lo hi have "y - x \<le> 1 / 20" and "x - y \<le> 1 / 20" by linarith+
      then show ?thesis by linarith
    next
      case 3
      then have "y = - real_of_int n / 10" and "\<bar>x\<bar> = - x" using y by simp_all
      with lo hi have "y - x \<le> 1 / 20" and "x - y \<le> 1 / 20" by linarith+
      then show ?thesis by linarith
    qed
  qed
  moreover have "y = real_of_int ((if x < 0 then - 1 else if x = 0 then 0 else 1) * n) / 10"
    unfolding y by (simp add: sgn_if)
  ultimately show ?thesis by blast
qed

lemma js_rem_nonneg: "0 \<le> a \<Longrightarrow> 0 < b \<Longrightarrow> js_rem a b = a mod b"
  by (cases "a = 0") (simp_all add: js_rem_def sgn_if)

lemma getGamification_level_zero:
  assumes "user_findUnique d i = Some u" and "level u = 0"
  shows "\<exists>g. getGamification d i = (Inr g, d) \<and>
     g_levelProgress g =
       (if js_rem (points u) 100 = 0 then NaN
        else if 0 < js_rem (points u) 100 then Num 100 else NegInf)"
  using assms by (simp add: getGamification_def Let_def js_div_def)

lemma orderBy_points_desc_sorted:
  "sorted_wrt (\<lambda>a b. points a \<ge> points b) (orderBy_points_desc us)"
proof -
  have "sorted (map (\<lambda>u. - points u) (sort_key (\<lambda>u. - points u) us))"
    by (rule sorted_sort_key)
  then show ?thesis
    by (simp add: orderBy_points_desc_def sorted_map sorted_wrt_map)
qed

lemma ranking_entries_points:
  "map (\<lambda>(index, usr). f index usr) (enumerate n xs) = map2 f [n..<n + length xs] xs"
  by (simp add: enumerate_eq_zip)


lemma getRanking_found:
  assumes "1 \<le> page"
  shows "getRanking som d now qt tk page =
     (Inr \<lparr>rr_ranking =
             map2 (\<lambda>index usr.
                 \<lparr>re_rank = (page - 1) * int tk + int index + 1, re_id = user_id usr,
                  re_name = user_name usr, re_points = points usr,
                  re_contributions = count_contributions d (user_id usr),
                  re_memberSince = createdAt usr\<rparr>)
               [0..<length (take tk (drop (nat ((page - 1) * int tk))
                                     (orderBy_points_desc (users d))))]
               (take tk (drop (nat ((page - 1) * int tk)) (orderBy_points_desc (users d)))),
           rr_page = page, rr_limit = tk, rr_total = length (users d),
           rr_totalPages = (if tk = 0 then None
                            else Some \<lceil>real (length (users d)) / real tk\<rceil>)\<rparr>, d)"
proof -
  have "0 \<le> (page - 1) * int tk"
    using assms by (intro mult_nonneg_nonneg) simp_all
  then have "\<not> (page - 1) * int tk < 0"
    by linarith
  then show ?thesis
    by (simp add: getRanking_def Let_def ranking_entries_points del: upt_Suc)
qed

lemma map2_upt_fst:
  "map f (map2 g [0..<length xs] xs) = map (\<lambda>k. f (g k (xs ! k))) [0..<length xs]"
  by (rule nth_equalityI) simp_all

lemma map2_upt_snd:
  assumes "\<And>k x. f (g k x) = h x"
  shows "map f (map2 g [0..<length xs] xs) = map h xs"
  by (rule nth_equalityI) (simp_all add: assms)

lemma updateStreak_users:
  "\<exists>f. users (snd (updateStreak d i now)) = map (\<lambda>x. if user_id x = i then f x else x) (users d)
     \<and> (\<forall>x. currentStreak (f x) \<le> longestStreak (f x) \<or> f x = x)"
proof (cases "user_findUnique d i")
  case None
  then have "users (snd (updateStreak d i now))
      = map (\<lambda>x. if user_id x = i then (\<lambda>y. y) x else x) (users d)"
    by (simp add: updateStreak_def)
  then show ?thesis by (intro exI [of _ "\<lambda>y. y"]) simp
next
  case (Some u)
  define ns where "ns = touch_streak u now"
  let ?f1 = "\<lambda>x::user. x\<lparr>currentStreak := ns, longestStreak := max ns (longestStreak u),
                 lastActiveAt := now\<rparr>"
  let ?f2 = "\<lambda>x::user. x\<lparr>points := points x + ns\<rparr>"
  show ?thesis
  proof (cases "touch_bonus u now")
    case True
    then have "users (snd (updateStreak d i now))
        = map (\<lambda>x. if user_id x = i then (?f2 (?f1 x)) else x) (users d)"
      unfolding updateStreak_unfold [OF Some] ns_def [symmetric] by simp
    then show ?thesis by (intro exI [of _ "\<lambda>x. ?f2 (?f1 x)"]) simp
  next
    case False
    then have "users (snd (updateStreak d i now))
        = map (\<lambda>x. if user_id x = i then ?f1 x else x) (users d)"
      unfolding updateStreak_unfold [OF Some] ns_def [symmetric] by simp
    then show ?thesis by (intro exI [of _ ?f1]) simp
  qed
qed

lemma pow2_pos: "0 < pow2 k"
  by (simp add: pow2_def)

lemma pow2_Suc: "pow2 (k + 1) = 2 * pow2 k"
proof (cases "0 \<le> k")
  case True
  then have "nat (k + 1) = Suc (nat k)" by simp
  with True show ?thesis by (simp add: pow2_def)
next
  case False
  then have "nat (- k) = Suc (nat (- (k + 1)))" by simp
  with False show ?thesis by (cases "k = - 1") (simp_all add: pow2_def)
qed

lemma pow2_pred: "pow2 (k - 1) = pow2 k / 2"
  using pow2_Suc [of "k - 1"] by simp

lemma pow2_diff_nat: "pow2 (k - int n) = pow2 k / 2 ^ n"
proof (induction n)
  case 0
  show ?case by simp
next
  case (Suc n)
  have "pow2 (k - int (Suc n)) = pow2 (k - int n - 1)"
    by (simp add: algebra_simps)
  also have "\<dots> = pow2 (k - int n) / 2"
    by (rule pow2_pred)
  finally show ?case using Suc by simp
qed

lemma halvings_bounds:
  assumes "1 \<le> x" and "x < 2 ^ n"
  shows "pow2 (halvings n x) \<le> x \<and> x < 2 * pow2 (halvings n x)"
  using assms
proof (induction n arbitrary: x)
  case 0
  then show ?case by simp
next
  case (Suc n)
  show ?case
  proof (cases "x < 2")
    case True
    then show ?thesis using Suc.prems by (simp add: halvings.simps [of "Suc n"] pow2_def)
  next
    case False
    then have "1 \<le> x / 2" and "x / 2 < 2 ^ n"
      using Suc.prems by simp_all
    from Suc.IH [OF this]
    have "pow2 (halvings n (x / 2)) \<le> x / 2 \<and> x / 2 < 2 * pow2 (halvings n (x / 2))" .
    moreover have "halvings (Suc n) x = halvings n (x / 2) + 1"
      using False by (simp add: halvings.simps [of "Suc n"])
    ultimately show ?thesis by (simp add: pow2_Suc)
  qed
qed

lemma doublings_bounds:
  assumes "0 < x" and "x < 1" and "1 \<le> x * 2 ^ n"
  shows "pow2 (doublings n x) \<le> x \<and> x < 2 * pow2 (doublings n x)"
  using assms
proof (induction n arbitrary: x)
  case 0
  then show ?case by simp
next
  case (Suc n)
  have d: "doublings (Suc n) x = doublings n (2 * x) - 1"
    using Suc.prems by (simp add: doublings.simps [of "Suc n"])
  show ?case
  proof (cases "2 * x < 1")
    case True
    have "0 < 2 * x" and "1 \<le> 2 * x * 2 ^ n"
      using Suc.prems by (simp_all add: mult.commute mult.left_commute)
    from Suc.IH [OF this(1) True this(2)]
    have "pow2 (doublings n (2 * x)) \<le> 2 * x \<and> 2 * x < 2 * pow2 (doublings n (2 * x))" .
    then show ?thesis unfolding d by (simp add: pow2_pred)
  next
    case False
    then have "doublings n (2 * x) = 0"
      by (simp add: doublings.simps [of n])
    then show ?thesis unfolding d using False Suc.prems by (simp add: pow2_def)
  qed
qed

lemma binexp_bounds:
  assumes "1 / 2 ^ 1100 \<le> x" and "x < 2 ^ 1100"
  shows "pow2 (binexp x) \<le> x \<and> x < 2 * pow2 (binexp x)"
proof (cases "1 \<le> x")
  case True
  then show ?thesis
    using halvings_bounds [OF True assms(2)] by (simp add: binexp_def)
next
  case False
  have pos: "0 < x"
    using assms(1) by (rule less_le_trans [rotated]) simp
  have "1 \<le> x * 2 ^ 1100"
    using assms(1) by (simp add: field_simps)
  with doublings_bounds [of x 1100] pos False show ?thesis
    by (simp add: binexp_def)
qed

lemma rnd_even_near: "\<bar>real_of_int (rnd_even t) - t\<bar> \<le> 1 / 2"
  unfolding rnd_even_def Let_def by (simp; linarith)

lemma round_double_error:
  assumes "1 / 2 ^ 1100 \<le> \<bar>x\<bar>" and "\<bar>x\<bar> < 2 ^ 1100"
  shows "\<bar>round_double x - x\<bar> \<le> \<bar>x\<bar> / 2 ^ 53"
proof -
  define u where "u = pow2 (binexp \<bar>x\<bar> - 52)"
  define m where "m = real_of_int (rnd_even (\<bar>x\<bar> / u))"
  have nz: "x \<noteq> 0"
    using assms(1) by auto
  have upos: "0 < u"
    by (simp add: u_def pow2_pos)
  have u52: "u = pow2 (binexp \<bar>x\<bar>) / 2 ^ 52"
    using pow2_diff_nat [of "binexp \<bar>x\<bar>" 52] by (simp add: u_def)
  have "pow2 (binexp \<bar>x\<bar>) \<le> \<bar>x\<bar>"
    using binexp_bounds [OF assms] by simp
  then have ule: "u \<le> \<bar>x\<bar> / 2 ^ 52"
    unfolding u52 by (simp add: divide_right_mono)
  have "\<bar>m - \<bar>x\<bar> / u\<bar> \<le> 1 / 2"
    unfolding m_def by (rule rnd_even_near)
  then have "\<bar>m - \<bar>x\<bar> / u\<bar> * u \<le> 1 / 2 * u"
    using upos by (intro mult_right_mono) simp_all
  moreover have "\<bar>m - \<bar>x\<bar> / u\<bar> * u = \<bar>m * u - \<bar>x\<bar>\<bar>"
  proof -
    have "\<bar>m - \<bar>x\<bar> / u\<bar> * u = \<bar>(m - \<bar>x\<bar> / u) * u\<bar>"
      using upos by (simp add: abs_mult)
    also have "(m - \<bar>x\<bar> / u) * u = m * u - \<bar>x\<bar>"
      using upos by (simp add: field_simps)
    finally show ?thesis .
  qed
  ultimately have near: "\<bar>m * u - \<bar>x\<bar>\<bar> \<le> u / 2"
    by simp
  have rd: "round_double x = sgn x * (m * u)"
    using nz by (simp add: round_double_def m_def u_def)
  have "round_double x - x = sgn x * (m * u - \<bar>x\<bar>)"
    unfolding rd using nz by (simp add: sgn_if algebra_simps)
  then have "\<bar>round_double x - x\<bar> = \<bar>m * u - \<bar>x\<bar>\<bar>"
    using nz by (simp add: abs_mult sgn_if)
  also have "\<dots> \<le> u / 2" by (rule near)
  also have "\<dots> \<le> \<bar>x\<bar> / 2 ^ 52 / 2" using ule by simp
  also have "\<dots> = \<bar>x\<bar> / 2 ^ 53" by simp
  finally show ?thesis .
qed


lemmas double_eval = round_double_def binexp_def doublings.simps halvings.simps pow2_def
  rnd_even_def Let_def

lemma round_double_zero: "round_double 0 = 0"
  by (simp add: round_double_def)

lemma round_double_twice_error:
  fixes X :: real
  assumes lo: "1 / 2 ^ 40 \<le> \<bar>X\<bar>" and hi: "\<bar>X\<bar> \<le> 1"
  shows "\<bar>round_double (round_double X * 100) - X * 100\<bar> \<le> 1 / 2 ^ 44"
proof -
  define q where "q = round_double X"
  define p where "p = round_double (q * 100)"
  have small: "(1::real) / 2 ^ 1100 \<le> 1 / 2 ^ 41"
    by (intro divide_left_mono power_increasing) simp_all
  have big: "(200::real) < 2 ^ 1100"
  proof -
    have "(200::real) < 2 ^ 8" by simp
    also have "\<dots> \<le> 2 ^ 1100" by (intro power_increasing) simp_all
    finally show ?thesis .
  qed
  have "(1::real) / 2 ^ 41 \<le> 1 / 2 ^ 40"
    by (intro divide_left_mono power_increasing) simp_all
  with small lo have xlo: "1 / 2 ^ 1100 \<le> \<bar>X\<bar>" by linarith
  have xhi: "\<bar>X\<bar> < 2 ^ 1100" using hi big by linarith
  have e1: "\<bar>q - X\<bar> \<le> \<bar>X\<bar> / 2 ^ 53"
    unfolding q_def by (rule round_double_error [OF xlo xhi])
  have tiny: "\<bar>X\<bar> / 2 ^ 53 \<le> \<bar>X\<bar> / 2"
    by (intro divide_left_mono) simp_all
  from e1 tiny have qlo: "\<bar>X\<bar> / 2 \<le> \<bar>q\<bar>" and qhi: "\<bar>q\<bar> \<le> 2 * \<bar>X\<bar>"
    by linarith+
  have q100: "\<bar>q * 100\<bar> = \<bar>q\<bar> * 100"
    by (simp add: abs_mult)
  have "1 / 2 ^ 41 \<le> \<bar>X\<bar> / 2"
    using lo by simp
  with qlo have "1 / 2 ^ 41 \<le> \<bar>q\<bar> * 100" by linarith
  with small have plo: "1 / 2 ^ 1100 \<le> \<bar>q * 100\<bar>"
    unfolding q100 by linarith
  have "\<bar>q\<bar> * 100 \<le> 200" using qhi hi by linarith
  with big have phi: "\<bar>q * 100\<bar> < 2 ^ 1100"
    unfolding q100 by linarith
  have e2: "\<bar>p - q * 100\<bar> \<le> \<bar>q * 100\<bar> / 2 ^ 53"
    unfolding p_def by (rule round_double_error [OF plo phi])
  have "\<bar>q * 100\<bar> / 2 ^ 53 \<le> 200 * \<bar>X\<bar> / 2 ^ 53"
    unfolding q100 using qhi by (intro divide_right_mono) simp_all
  with e2 have e2': "\<bar>p - q * 100\<bar> \<le> 200 * \<bar>X\<bar> / 2 ^ 53" by linarith
  have "\<bar>q * 100 - X * 100\<bar> = \<bar>q - X\<bar> * 100"
  proof -
    have "q * 100 - X * 100 = (q - X) * 100" by (simp add: algebra_simps)
    then have "\<bar>q * 100 - X * 100\<bar> = \<bar>(q - X) * 100\<bar>" by (rule arg_cong)
    also have "\<dots> = \<bar>q - X\<bar> * \<bar>100\<bar>" by (rule abs_mult)
    finally show ?thesis by simp
  qed
  with e1 have e1': "\<bar>q * 100 - X * 100\<bar> \<le> 100 * \<bar>X\<bar> / 2 ^ 53" by simp
  have "\<bar>p - X * 100\<bar> \<le> \<bar>p - q * 100\<bar> + \<bar>q * 100 - X * 100\<bar>"
    by linarith
  with e1' e2' have "\<bar>p - X * 100\<bar> \<le> 300 * \<bar>X\<bar> / 2 ^ 53"
    by (simp add: field_simps)
  also have "\<dots> \<le> 300 / 2 ^ 53"
    using hi by (simp add: field_simps)
  also have "\<dots> \<le> 1 / 2 ^ 44"
    by simp
  finally show ?thesis unfolding p_def q_def .
qed

lemma js_rem_100_bound: "\<bar>js_rem a 100\<bar> < 100"
proof -
  have "\<bar>js_rem a 100\<bar> = \<bar>a\<bar> mod 100"
    by (simp add: js_rem_def abs_mult sgn_if)
  then show ?thesis by simp
qed

lemma level_progress_error:
  assumes "\<bar>a\<bar> < 100" and "l \<noteq> 0" and "\<bar>l\<bar> < 2 ^ 31"
  shows "\<exists>p. js_times (js_div a (l * 100)) 100 = Num p \<and>
     \<bar>p - real_of_int a / real_of_int (l * 100) * 100\<bar> \<le> 1 / 2 ^ 44"
proof (cases "a = 0")
  case True
  then show ?thesis using assms(2) by (simp add: js_div_def round_double_zero)
next
  case False
  define X where "X = real_of_int a / real_of_int (l * 100)"
  have run: "js_times (js_div a (l * 100)) 100 = Num (round_double (round_double X * 100))"
    using assms(2) by (simp add: js_div_def X_def)
  have a1: "1 \<le> \<bar>real_of_int a\<bar>" and a2: "\<bar>real_of_int a\<bar> \<le> 100"
    using False assms(1) by linarith+
  have "1 \<le> \<bar>l\<bar>" using assms(2) by linarith
  then have b1: "100 \<le> \<bar>real_of_int (l * 100)\<bar>"
    by (simp add: abs_mult)
  have "\<bar>l\<bar> * 100 \<le> 2 ^ 31 * 100" using assms(3) by simp
  then have "\<bar>l * 100\<bar> \<le> 2 ^ 40" by (simp add: abs_mult)
  then have "real_of_int \<bar>l * 100\<bar> \<le> real_of_int (2 ^ 40)"
    by (rule of_int_le_iff [THEN iffD2])
  then have b2: "\<bar>real_of_int (l * 100)\<bar> \<le> 2 ^ 40"
    by simp
  have absX: "\<bar>X\<bar> = \<bar>real_of_int a\<bar> / \<bar>real_of_int (l * 100)\<bar>"
    by (simp add: X_def)
  have lo: "1 / 2 ^ 40 \<le> \<bar>X\<bar>"
    unfolding absX using a1 b1 b2 by (intro frac_le) simp_all
  have "\<bar>X\<bar> \<le> 100 / 100"
    unfolding absX using a2 b1 by (intro frac_le) simp_all
  then have hi: "\<bar>X\<bar> \<le> 1" by simp
  from round_double_twice_error [OF lo hi] run show ?thesis
    by (simp add: X_def)
qed


lemma orderBy_points_desc_mset: "mset (orderBy_points_desc us) = mset us"
  by (simp add: orderBy_points_desc_def)

lemma orderBy_points_desc_length: "length (orderBy_points_desc us) = length us"
  by (simp add: orderBy_points_desc_def)

lemma count_above_orderBy:
  "length (filter P (orderBy_points_desc us)) = length (filter P us)"
proof -
  have "mset (filter P (orderBy_points_desc us)) = mset (filter P us)"
    by (simp add: orderBy_points_desc_mset)
  then show ?thesis by (rule mset_eq_length)
qed

lemma desc_distinct_strict:
  assumes "sorted_wrt (\<lambda>a b. points a \<ge> points b) s" and "distinct (map points s)"
  shows "sorted_wrt (\<lambda>a b. points a > points b) s"
  using assms
proof (induction s)
  case Nil
  show ?case by simp
next
  case (Cons a t)
  have "points x < points a" if "x \<in> set t" for x
  proof -
    from that Cons.prems(1) have "points x \<le> points a" by simp
    moreover have "points x \<noteq> points a"
    proof
      assume "points x = points a"
      with that have "points a \<in> points ` set t" by (metis imageI)
      with Cons.prems(2) show False by simp
    qed
    ultimately show ?thesis by simp
  qed
  with Cons show ?case by simp
qed

lemma orderBy_points_desc_strict:
  assumes "distinct (map points us)"
  shows "sorted_wrt (\<lambda>a b. points a > points b) (orderBy_points_desc us)"
proof -
  let ?s = "orderBy_points_desc us"
  have "mset (map points ?s) = mset (map points us)"
    by (simp add: orderBy_points_desc_mset)
  from mset_eq_imp_distinct_iff [OF this] have d: "distinct (map points ?s)"
    using assms by blast
  show ?thesis
    by (rule desc_distinct_strict [OF orderBy_points_desc_sorted d])
qed

lemma strict_desc_count:
  assumes "sorted_wrt (\<lambda>a b. points a > points b) s" and "k < length s"
  shows "length (filter (\<lambda>x. points x > points (s ! k)) s) = k"
  using assms
proof (induction s arbitrary: k)
  case Nil
  then show ?case by simp
next
  case (Cons a t)
  from Cons.prems(1) have below: "\<forall>x \<in> set t. points x < points a"
    and st: "sorted_wrt (\<lambda>a b. points a > points b) t"
    by simp_all
  show ?case
  proof (cases k)
    case 0
    have "filter (\<lambda>x. points x > points a) t = []"
      using below by (auto simp: filter_empty_conv)
    with 0 show ?thesis by simp
  next
    case (Suc j)
    then have j: "j < length t" using Cons.prems(2) by simp
    then have "t ! j \<in> set t" by simp
    with below have "points (t ! j) < points a" by blast
    with Suc Cons.IH [OF st j] show ?thesis by simp
  qed
qed


lemma map2_upt_nth:
  assumes "k < length xs"
  shows "map2 g [0..<length xs] xs ! k = g k (xs ! k)"
  using assms by simp

lemma page_nth:
  assumes "k < length (take tk (drop sk s))"
  shows "take tk (drop sk s) ! k = s ! (sk + k) \<and> sk + k < length s"
proof -
  from assms have a: "k < tk" and b: "sk + k < length s"
    by auto
  then have "sk \<le> length s" by simp
  then have "drop sk s ! k = s ! (sk + k)" by (rule nth_drop)
  with a b show ?thesis by simp
qed

lemma ranking_rank_is_count:
  assumes dist: "distinct (map points us)"
    and k: "k < length (take tk (drop sk (orderBy_points_desc us)))"
  shows "length (filter (\<lambda>x. points x >
            points (take tk (drop sk (orderBy_points_desc us)) ! k)) us) = sk + k"
proof -
  let ?s = "orderBy_points_desc us"
  from page_nth [OF k] have n: "take tk (drop sk ?s) ! k = ?s ! (sk + k)"
    and l: "sk + k < length ?s"
    by simp_all
  have "length (filter (\<lambda>x. points x > points (?s ! (sk + k))) us)
      = length (filter (\<lambda>x. points x > points (?s ! (sk + k))) ?s)"
    by (rule count_above_orderBy [symmetric])
  also have "\<dots> = sk + k"
    by (rule strict_desc_count [OF orderBy_points_desc_strict [OF dist] l])
  finally show ?thesis unfolding n .
qed

section \<open>The streak touch\<close>

text \<open>
  C2. A streak touch (PUT /:id/streak) of an existing user is this state machine. The
  day count is the difference between now and \<open>lastActiveAt\<close> divided by one day,
  rounded down. For a day count of 0 the streak is unchanged; for 1 it grows by one; for
  2 or more it becomes 1 and \<open>streakBroken\<close> is reported (it is not reported for 0 and 1).
  In every case the longest streak becomes the maximum of its old value and the new
  streak, and \<open>lastActiveAt\<close> becomes now.
\<close>

theorem streak_touch_state_machine:
  assumes "user_findUnique d i = Some u"
  shows "\<exists>r d' u'. updateStreak d i now = (Inr r, d') \<and> user_findUnique d' i = Some u' \<and>
     daysSince now (lastActiveAt u) = (now - lastActiveAt u) div (1000 * 60 * 60 * 24) \<and>
     (daysSince now (lastActiveAt u) = 0 \<longrightarrow>
        currentStreak u' = currentStreak u \<and> \<not> sr_streakBroken r) \<and>
     (daysSince now (lastActiveAt u) = 1 \<longrightarrow>
        currentStreak u' = currentStreak u + 1 \<and> \<not> sr_streakBroken r) \<and>
     (daysSince now (lastActiveAt u) \<ge> 2 \<longrightarrow>
        currentStreak u' = 1 \<and> sr_streakBroken r) \<and>
     longestStreak u' = max (longestStreak u) (currentStreak u') \<and>
     lastActiveAt u' = now \<and>
     sr_currentStreak r = currentStreak u' \<and>
     sr_longestStreak r = longestStreak u' \<and>
     sr_lastActiveAt r = now"
proof -
  from updateStreak_found [OF assms, of now]
  obtain r d' where
    run: "updateStreak d i now = (Inr r, d')" and
    look: "user_findUnique d' i = Some (touched u now)" and
    resp: "sr_currentStreak r = touch_streak u now"
          "sr_longestStreak r = max (touch_streak u now) (longestStreak u)"
          "sr_lastActiveAt r = now" and
    broken: "sr_streakBroken r = (\<not> ((now - lastActiveAt u) div 86400000 = 0 \<or>
                              (now - lastActiveAt u) div 86400000 = 1))"
    by blast
  have "daysSince now (lastActiveAt u) = (now - lastActiveAt u) div (1000 * 60 * 60 * 24) \<and>
     (daysSince now (lastActiveAt u) = 0 \<longrightarrow>
        currentStreak (touched u now) = currentStreak u \<and> \<not> sr_streakBroken r) \<and>
     (daysSince now (lastActiveAt u) = 1 \<longrightarrow>
        currentStreak (touched u now) = currentStreak u + 1 \<and> \<not> sr_streakBroken r) \<and>
     (daysSince now (lastActiveAt u) \<ge> 2 \<longrightarrow>
        currentStreak (touched u now) = 1 \<and> sr_streakBroken r) \<and>
     longestStreak (touched u now) = max (longestStreak u) (currentStreak (touched u now)) \<and>
     lastActiveAt (touched u now) = now \<and>
     sr_currentStreak r = currentStreak (touched u now) \<and>
     sr_longestStreak r = longestStreak (touched u now) \<and>
     sr_lastActiveAt r = now"
    using resp broken
    by (simp add: daysSince_div touched_def touch_streak_def Let_def max.commute)
  with run look show ?thesis by blast
qed

theorem streak_touch_state_machine_witness:
  "user_findUnique seed ''C'' = Some ana \<and>
   daysSince 5 (lastActiveAt ana) = 0 \<and>
   (\<exists>r d' u'. updateStreak seed ''C'' 5 = (Inr r, d') \<and>
      user_findUnique d' ''C'' = Some u' \<and> currentStreak u' = 5 \<and> \<not> sr_streakBroken r \<and>
      longestStreak u' = 9 \<and> lastActiveAt u' = 5) \<and>
   daysSince day_ms (lastActiveAt ana) = 1 \<and>
   (\<exists>r d' u'. updateStreak seed ''C'' day_ms = (Inr r, d') \<and>
      user_findUnique d' ''C'' = Some u' \<and> currentStreak u' = 6 \<and> \<not> sr_streakBroken r \<and>
      longestStreak u' = 9 \<and> lastActiveAt u' = day_ms) \<and>
   2 \<le> daysSince (3 * day_ms) (lastActiveAt ana) \<and>
   (\<exists>r d' u'. updateStreak seed ''C'' (3 * day_ms) = (Inr r, d') \<and>
      user_findUnique d' ''C'' = Some u' \<and> currentStreak u' = 1 \<and> sr_streakBroken r \<and>
      longestStreak u' = 9 \<and> lastActiveAt u' = 3 * day_ms)"
proof -
  have h: "user_findUnique seed ''C'' = Some ana"
    by (simp add: user_findUnique_def seed_def maria_def joao_def ana_def)
  have d0: "daysSince 5 (lastActiveAt ana) = 0"
    by (simp add: daysSince_div ana_def)
  have d1: "daysSince day_ms (lastActiveAt ana) = 1"
    by (simp add: daysSince_div day_ms_def ana_def)
  have d3: "daysSince (3 * day_ms) (lastActiveAt ana) = 3"
    by (simp add: daysSince_div day_ms_def ana_def)
  have v: "currentStreak ana = 5" "longestStreak ana = 9"
    by (simp_all add: ana_def)
  from streak_touch_state_machine [OF h, of 5]
  have a: "\<exists>r d' u'. updateStreak seed ''C'' 5 = (Inr r, d') \<and>
      user_findUnique d' ''C'' = Some u' \<and> currentStreak u' = 5 \<and> \<not> sr_streakBroken r \<and>
      longestStreak u' = 9 \<and> lastActiveAt u' = 5"
    unfolding d0 v by auto
  from streak_touch_state_machine [OF h, of day_ms]
  have b: "\<exists>r d' u'. updateStreak seed ''C'' day_ms = (Inr r, d') \<and>
      user_findUnique d' ''C'' = Some u' \<and> currentStreak u' = 6 \<and> \<not> sr_streakBroken r \<and>
      longestStreak u' = 9 \<and> lastActiveAt u' = day_ms"
    unfolding d1 v by auto
  from streak_touch_state_machine [OF h, of "3 * day_ms"]
  have c: "\<exists>r d' u'. updateStreak seed ''C'' (3 * day_ms) = (Inr r, d') \<and>
      user_findUnique d' ''C'' = Some u' \<and> currentStreak u' = 1 \<and> sr_streakBroken r \<and>
      longestStreak u' = 9 \<and> lastActiveAt u' = 3 * day_ms"
    unfolding d3 v by auto
  show ?thesis
    using h d0 d1 d3 a b c by simp
qed

text \<open>
  C3. A streak touch of an existing user awards a bonus exactly when the new streak is
  greater than the previous one and a multiple of 7: then the points grow by the new
  streak and one \<^verbatim>\<open>streak_bonus\<close> row with those points is appended to the ledger;
  otherwise points and ledger stay as they were. Whenever the day count is not 1 (the
  same-day path and the reset path) there is no bonus. A touch with a streak of 6 and a
  day count of 1 gives a streak of 7, 7 more points and a \<^verbatim>\<open>streak_bonus\<close> row of 7 points.
\<close>

theorem streak_bonus_rule:
  assumes "user_findUnique d i = Some u"
  shows "\<exists>r d' u'. updateStreak d i now = (Inr r, d') \<and> user_findUnique d' i = Some u' \<and>
     (currentStreak u' > currentStreak u \<and> currentStreak u' mod 7 = 0 \<longrightarrow>
        points u' = points u + currentStreak u' \<and>
        contributions d' = contributions d @
          [\<lparr>c_userId = i, c_type = ''streak_bonus'', c_points = currentStreak u',
            c_description = ''Streak de '' @ string_of_int (currentStreak u') @ '' dias!'',
            c_createdAt = now\<rparr>]) \<and>
     (\<not> (currentStreak u' > currentStreak u \<and> currentStreak u' mod 7 = 0) \<longrightarrow>
        points u' = points u \<and> contributions d' = contributions d) \<and>
     (daysSince now (lastActiveAt u) \<noteq> 1 \<longrightarrow>
        points u' = points u \<and> contributions d' = contributions d) \<and>
     (currentStreak u = 6 \<and> daysSince now (lastActiveAt u) = 1 \<longrightarrow>
        currentStreak u' = 7 \<and> points u' = points u + 7 \<and>
        contributions d' = contributions d @
          [\<lparr>c_userId = i, c_type = ''streak_bonus'', c_points = 7,
            c_description = ''Streak de 7 dias!'', c_createdAt = now\<rparr>])"
proof -
  from updateStreak_found [OF assms, of now]
  obtain r d' where
    run: "updateStreak d i now = (Inr r, d')" and
    look: "user_findUnique d' i = Some (touched u now)" and
    ledger: "contributions d' =
       (if touch_bonus u now then contributions d @
           [\<lparr>c_userId = i, c_type = ''streak_bonus'', c_points = touch_streak u now,
             c_description = ''Streak de '' @ string_of_int (touch_streak u now) @ '' dias!'',
             c_createdAt = now\<rparr>]
        else contributions d)"
    by blast
  have cs: "currentStreak (touched u now) = touch_streak u now"
    by (simp add: touched_def)
  have pts: "points (touched u now) =
      (if touch_bonus u now then points u + touch_streak u now else points u)"
    by (simp add: touched_def)
  have off: "\<not> touch_bonus u now" if "daysSince now (lastActiveAt u) \<noteq> 1"
    using that by (simp add: touch_bonus_def touch_streak_def daysSince_div Let_def)
  have seven: "touch_streak u now = 7 \<and> touch_bonus u now"
    if "currentStreak u = 6" "daysSince now (lastActiveAt u) = 1"
    using that by (simp add: touch_bonus_def touch_streak_def daysSince_div Let_def)
  have s7: "string_of_int 7 = ''7''"
    by (simp add: string_of_int_def string_of_nat.simps digit_char_def)
  have c1: "currentStreak (touched u now) > currentStreak u \<and>
         currentStreak (touched u now) mod 7 = 0 \<longrightarrow>
        points (touched u now) = points u + currentStreak (touched u now) \<and>
        contributions d' = contributions d @
          [\<lparr>c_userId = i, c_type = ''streak_bonus'', c_points = currentStreak (touched u now),
            c_description =
              ''Streak de '' @ string_of_int (currentStreak (touched u now)) @ '' dias!'',
            c_createdAt = now\<rparr>]"
    unfolding cs pts ledger by (simp add: touch_bonus_def)
  have c2: "\<not> (currentStreak (touched u now) > currentStreak u \<and>
         currentStreak (touched u now) mod 7 = 0) \<longrightarrow>
        points (touched u now) = points u \<and> contributions d' = contributions d"
    unfolding cs pts ledger by (simp add: touch_bonus_def)
  have c3: "daysSince now (lastActiveAt u) \<noteq> 1 \<longrightarrow>
        points (touched u now) = points u \<and> contributions d' = contributions d"
    unfolding pts ledger using off by simp
  have c4: "currentStreak u = 6 \<and> daysSince now (lastActiveAt u) = 1 \<longrightarrow>
        currentStreak (touched u now) = 7 \<and> points (touched u now) = points u + 7 \<and>
        contributions d' = contributions d @
          [\<lparr>c_userId = i, c_type = ''streak_bonus'', c_points = 7,
            c_description = ''Streak de 7 dias!'', c_createdAt = now\<rparr>]"
    unfolding cs pts ledger using seven s7 by simp
  show ?thesis
    by (intro exI [of _ r] exI [of _ d'] exI [of _ "touched u now"] conjI run look c1 c2 c3 c4)
qed

theorem streak_bonus_rule_witness:
  "user_findUnique seed ''B'' = Some joao \<and> currentStreak joao = 6 \<and>
   daysSince day_ms (lastActiveAt joao) = 1 \<and>
   (\<exists>r d' u'. updateStreak seed ''B'' day_ms = (Inr r, d') \<and>
      user_findUnique d' ''B'' = Some u' \<and> currentStreak u' = 7 \<and> points u' = 327 \<and>
      contributions d' =
        [\<lparr>c_userId = ''B'', c_type = ''streak_bonus'', c_points = 7,
          c_description = ''Streak de 7 dias!'', c_createdAt = day_ms\<rparr>]) \<and>
   daysSince (3 * day_ms) (lastActiveAt joao) \<noteq> 1 \<and>
   (\<exists>r d' u'. updateStreak seed ''B'' (3 * day_ms) = (Inr r, d') \<and>
      user_findUnique d' ''B'' = Some u' \<and> points u' = 320 \<and> contributions d' = [])"
proof -
  have h: "user_findUnique seed ''B'' = Some joao"
    by (simp add: user_findUnique_def seed_def maria_def joao_def)
  have d1: "daysSince day_ms (lastActiveAt joao) = 1"
    by (simp add: daysSince_div day_ms_def joao_def)
  have d3: "daysSince (3 * day_ms) (lastActiveAt joao) = 3"
    by (simp add: daysSince_div day_ms_def joao_def)
  have v: "currentStreak joao = 6" "points joao = 320" "contributions seed = []"
    by (simp_all add: joao_def seed_def)
  from streak_bonus_rule [OF h, of day_ms]
  have a: "\<exists>r d' u'. updateStreak seed ''B'' day_ms = (Inr r, d') \<and>
      user_findUnique d' ''B'' = Some u' \<and> currentStreak u' = 7 \<and> points u' = 327 \<and>
      contributions d' =
        [\<lparr>c_userId = ''B'', c_type = ''streak_bonus'', c_points = 7,
          c_description = ''Streak de 7 dias!'', c_createdAt = day_ms\<rparr>]"
    unfolding d1 v by auto
  from streak_bonus_rule [OF h, of "3 * day_ms"]
  have b: "\<exists>r d' u'. updateStreak seed ''B'' (3 * day_ms) = (Inr r, d') \<and>
      user_findUnique d' ''B'' = Some u' \<and> points u' = 320 \<and> contributions d' = []"
    unfolding d3 v by auto
  show ?thesis
    using h d1 d3 v a b by simp
qed

text \<open>
  C5. If every stored user has a longest streak not below the current streak, the same
  holds after a streak touch, on each of its paths.
\<close>

theorem streak_invariant_preserved:
  assumes "streak_inv d"
  shows "streak_inv (snd (updateStreak d i now))"
proof -
  from updateStreak_users [of d i now] obtain f where
    us: "users (snd (updateStreak d i now)) = map (\<lambda>x. if user_id x = i then f x else x) (users d)"
    and ok: "\<And>x. currentStreak (f x) \<le> longestStreak (f x) \<or> f x = x"
    by blast
  define g where "g = (\<lambda>x. if user_id x = i then f x else x)"
  have us': "users (snd (updateStreak d i now)) = map g (users d)"
    using us by (simp add: g_def)
  have step: "currentStreak (g x) \<le> longestStreak (g x)"
    if "currentStreak x \<le> longestStreak x" for x
    using that ok [of x] by (auto simp: g_def)
  show ?thesis
    using assms step unfolding streak_inv_def us' by (auto simp: list_all_iff)
qed

theorem streak_invariant_preserved_witness:
  "streak_inv seed \<and> streak_inv (snd (updateStreak seed ''B'' day_ms)) \<and>
   streak_inv (snd (updateStreak seed ''C'' (3 * day_ms))) \<and>
   streak_inv (snd (updateStreak seed ''C'' 5))"
proof -
  have h: "streak_inv seed"
    by (simp add: streak_inv_def seed_def maria_def joao_def ana_def)
  from streak_invariant_preserved [OF h] show ?thesis
    using h by blast
qed

section \<open>The frame of the points update\<close>

text \<open>
  C10. For an existing user, PUT /:id/points rewrites only the points and the level of
  that user and appends no ledger row. The new points are the old points plus the
  supplied value, or the supplied value itself for the action \<^verbatim>\<open>'set'\<close> (which may be
  lower than before); the level becomes the new points divided by 100, rounded down,
  plus 1. Streak counters and \<open>lastActiveAt\<close> of the user, all other users, the badges,
  the unlocked badges and the ledger are unchanged. Hence, if the ledger rows of the user
  summed to the points before and the points changed, they no longer do afterwards.
\<close>

theorem points_update_frame:
  assumes "user_findUnique d i = Some u"
  shows "\<exists>r d' u' np. updatePoints d i (Some pts) act = (Inr r, d') \<and>
     user_findUnique d' i = Some u' \<and>
     np = (if act = Some ''set'' then pts else points u + pts) \<and>
     u' = u\<lparr>points := np, level := np div 100 + 1\<rparr> \<and>
     currentStreak u' = currentStreak u \<and> longestStreak u' = longestStreak u \<and>
     lastActiveAt u' = lastActiveAt u \<and>
     users d' = map (\<lambda>x. if user_id x = i then x\<lparr>points := np, level := np div 100 + 1\<rparr>
                          else x) (users d) \<and>
     (\<forall>j. j \<noteq> i \<longrightarrow> user_findUnique d' j = user_findUnique d j) \<and>
     contributions d' = contributions d \<and> badges d' = badges d \<and>
     userBadges d' = userBadges d \<and>
     (ledger_sum d i = points u \<and> np \<noteq> points u \<longrightarrow> ledger_sum d' i \<noteq> points u')"
proof -
  define np where "np = (if act = Some ''set'' then pts else points u + pts)"
  let ?f = "\<lambda>x::user. x\<lparr>points := np, level := levelOf np\<rparr>"
  let ?d' = "user_update d i ?f"
  let ?r = "\<lparr>pr_id = i, pr_points = np, pr_level = levelOf np,
            pr_leveledUp = (levelOf np > level u)\<rparr>"
  have run: "updatePoints d i (Some pts) act = (Inr ?r, ?d')"
    unfolding updatePoints_found [OF assms] np_def Let_def by simp
  have look: "user_findUnique ?d' i = Some (?f u)"
    by (rule user_update_same [OF assms]) simp
  have other: "\<forall>j. j \<noteq> i \<longrightarrow> user_findUnique ?d' j = user_findUnique d j"
    by (simp add: user_update_other)
  have c1: "np = (if act = Some ''set'' then pts else points u + pts)"
    by (simp add: np_def)
  have c3: "?f u = u\<lparr>points := np, level := np div 100 + 1\<rparr>"
    by (simp add: levelOf_div)
  have c4: "currentStreak (?f u) = currentStreak u" "longestStreak (?f u) = longestStreak u"
    "lastActiveAt (?f u) = lastActiveAt u"
    by simp_all
  have c5: "users ?d' = map (\<lambda>x. if user_id x = i then x\<lparr>points := np, level := np div 100 + 1\<rparr>
                          else x) (users d)"
    by (simp add: levelOf_div)
  have c6: "contributions ?d' = contributions d" "badges ?d' = badges d"
    "userBadges ?d' = userBadges d"
    by simp_all
  have c7: "ledger_sum d i = points u \<and> np \<noteq> points u \<longrightarrow> ledger_sum ?d' i \<noteq> points (?f u)"
    by simp
  show ?thesis
    by (intro exI [of _ ?r] exI [of _ ?d'] exI [of _ "?f u"] exI [of _ np] conjI
        run look c1 c3 c4 c5 other c6 c7)
qed

theorem points_update_frame_witness:
  "user_findUnique ledgered ''A'' = Some maria \<and> ledger_sum ledgered ''A'' = points maria \<and>
   (\<exists>r d' u'. updatePoints ledgered ''A'' (Some 5) None = (Inr r, d') \<and>
      user_findUnique d' ''A'' = Some u' \<and> points u' = 455 \<and> level u' = 5 \<and>
      contributions d' = contributions ledgered \<and> ledger_sum d' ''A'' \<noteq> points u') \<and>
   (\<exists>r d' u'. updatePoints ledgered ''A'' (Some 100) (Some ''set'') = (Inr r, d') \<and>
      user_findUnique d' ''A'' = Some u' \<and> points u' = 100 \<and> points u' < points maria \<and>
      level u' = 2 \<and> ledger_sum d' ''A'' \<noteq> points u')"
proof -
  have h: "user_findUnique ledgered ''A'' = Some maria"
    by (simp add: user_findUnique_def ledgered_def seed_def maria_def)
  have l: "ledger_sum ledgered ''A'' = points maria"
    by (simp add: ledger_sum_def ledgered_def seed_def maria_def)
  have p: "points maria = 450"
    by (simp add: maria_def)
  from points_update_frame [OF h, of 5 None] points_update_frame [OF h, of 100 "Some ''set''"]
  show ?thesis
    using h l p by auto
qed

section \<open>Unlocking a badge\<close>

text \<open>
  C1. Unlocking is exactly-once. Let the user and the badge exist (the badge id of the
  request is not empty). If a \<^verbatim>\<open>user_badges\<close> row for the pair exists, POST /:id/badges
  fails with "badge already unlocked" (the conflict, answered with status 400) and the
  store is unchanged: no new \<^verbatim>\<open>user_badges\<close> row, no new ledger row, same points. If
  there is no such row, it succeeds: exactly one \<^verbatim>\<open>user_badges\<close> row for the pair is
  appended (and is then the only one), the points of the user grow by the points of the
  badge, all else of the user is kept, and exactly one ledger row of type
  \<^verbatim>\<open>badge_unlocked\<close> with those points is appended. A second unlock of the same badge
  in the resulting store is the conflict and changes nothing, so the points are awarded
  once.
\<close>

theorem badge_unlock_exactly_once:
  assumes "user_findUnique d i = Some u" and "badge_findUnique d b = Some g" and "b \<noteq> []"
  shows
    "(userBadge_findUnique d i b \<noteq> None \<longrightarrow>
        unlockBadge d i (Some b) now = (Inl BadgeAlreadyUnlocked, d) \<and>
        http_status BadgeAlreadyUnlocked = 400) \<and>
     (userBadge_findUnique d i b = None \<longrightarrow>
        (\<exists>r d'. unlockBadge d i (Some b) now = (Inr r, d') \<and>
           ur_pointsEarned r = badge_points g \<and>
           userBadges d' = userBadges d @ [\<lparr>ub_userId = i, ub_badgeId = b, unlockedAt = now\<rparr>] \<and>
           length (filter (\<lambda>x. ub_userId x = i \<and> ub_badgeId x = b) (userBadges d')) = 1 \<and>
           user_findUnique d' i = Some (u\<lparr>points := points u + badge_points g\<rparr>) \<and>
           (\<forall>j. j \<noteq> i \<longrightarrow> user_findUnique d' j = user_findUnique d j) \<and>
           badges d' = badges d \<and>
           contributions d' = contributions d @
             [\<lparr>c_userId = i, c_type = ''badge_unlocked'', c_points = badge_points g,
               c_description = ''Desbloqueou badge: '' @ badge_name g, c_createdAt = now\<rparr>] \<and>
           unlockBadge d' i (Some b) later = (Inl BadgeAlreadyUnlocked, d')))"
proof (intro conjI impI)
  assume "userBadge_findUnique d i b \<noteq> None"
  then obtain e where "userBadge_findUnique d i b = Some e" by blast
  then show "unlockBadge d i (Some b) now = (Inl BadgeAlreadyUnlocked, d)"
    by (rule unlockBadge_locked [OF assms])
next
  show "http_status BadgeAlreadyUnlocked = 400" by simp
next
  assume fresh: "userBadge_findUnique d i b = None"
  let ?row = "\<lparr>ub_userId = i, ub_badgeId = b, unlockedAt = now\<rparr>"
  let ?f = "\<lambda>x::user. x\<lparr>points := points x + badge_points g\<rparr>"
  let ?c = "\<lparr>c_userId = i, c_type = ''badge_unlocked'', c_points = badge_points g,
         c_description = ''Desbloqueou badge: '' @ badge_name g, c_createdAt = now\<rparr>"
  let ?d' = "contribution_create (user_update (userBadge_create d ?row) i ?f) ?c"
  let ?r = "\<lparr>ur_id = badge_id g, ur_name = badge_name g, ur_description = badge_description g,
           ur_pointsEarned = badge_points g\<rparr>"
  let ?P = "\<lambda>x. ub_userId x = i \<and> ub_badgeId x = b"
  have run: "unlockBadge d i (Some b) now = (Inr ?r, ?d')"
    by (rule unlockBadge_fresh [OF assms fresh])
  have none: "find ?P (userBadges d) = None"
    using fresh by (simp add: userBadge_findUnique_def)
  have u0: "user_findUnique (userBadge_create d ?row) i = Some u"
    using assms(1) by simp
  have look: "user_findUnique ?d' i = Some (?f u)"
    using user_update_same [OF u0, of ?f] by simp
  have other: "\<forall>j. j \<noteq> i \<longrightarrow> user_findUnique ?d' j = user_findUnique d j"
    by (simp add: user_update_other)
  have rows: "userBadges ?d' = userBadges d @ [?row]"
    by simp
  have one: "length (filter ?P (userBadges ?d')) = 1"
    unfolding rows using filter_find_None [OF none] by simp
  have ledger: "contributions ?d' = contributions d @ [?c]"
    by simp
  have bdg: "badge_findUnique ?d' b = Some g"
    using assms(2) by simp
  have ex: "userBadge_findUnique ?d' i b = Some ?row"
    using find_append_new [OF none, of ?row]
    by (simp add: userBadge_findUnique_def)
  have again: "unlockBadge ?d' i (Some b) later = (Inl BadgeAlreadyUnlocked, ?d')"
    by (rule unlockBadge_locked [OF look bdg assms(3) ex])
  have pe: "ur_pointsEarned ?r = badge_points g" and bs: "badges ?d' = badges d"
    by simp_all
  show "\<exists>r d'. unlockBadge d i (Some b) now = (Inr r, d') \<and>
           ur_pointsEarned r = badge_points g \<and>
           userBadges d' = userBadges d @ [?row] \<and>
           length (filter ?P (userBadges d')) = 1 \<and>
           user_findUnique d' i = Some (u\<lparr>points := points u + badge_points g\<rparr>) \<and>
           (\<forall>j. j \<noteq> i \<longrightarrow> user_findUnique d' j = user_findUnique d j) \<and>
           badges d' = badges d \<and>
           contributions d' = contributions d @ [?c] \<and>
           unlockBadge d' i (Some b) later = (Inl BadgeAlreadyUnlocked, d')"
    by (intro exI [of _ ?r] exI [of _ ?d'] conjI run pe rows one look other bs ledger again)
qed

theorem badge_unlock_exactly_once_witness:
  "user_findUnique seed ''A'' = Some maria \<and> badge_findUnique seed ''b1'' = Some primeiro_reporte \<and>
   userBadge_findUnique seed ''A'' ''b1'' = None \<and>
   (\<exists>r d'. unlockBadge seed ''A'' (Some ''b1'') 5 = (Inr r, d') \<and>
      ur_pointsEarned r = 10 \<and>
      userBadges d' = [\<lparr>ub_userId = ''A'', ub_badgeId = ''b1'', unlockedAt = 5\<rparr>] \<and>
      user_findUnique d' ''A'' = Some (maria\<lparr>points := 460\<rparr>) \<and>
      contributions d' =
        [\<lparr>c_userId = ''A'', c_type = ''badge_unlocked'', c_points = 10,
          c_description = ''Desbloqueou badge: Primeiro Reporte'', c_createdAt = 5\<rparr>] \<and>
      userBadge_findUnique d' ''A'' ''b1'' \<noteq> None \<and>
      unlockBadge d' ''A'' (Some ''b1'') 6 = (Inl BadgeAlreadyUnlocked, d')) \<and>
   userBadge_findUnique unlocked ''A'' ''b1'' \<noteq> None \<and>
   unlockBadge unlocked ''A'' (Some ''b1'') 6 = (Inl BadgeAlreadyUnlocked, unlocked)"
proof -
  have h1: "user_findUnique seed ''A'' = Some maria"
    by (simp add: user_findUnique_def seed_def maria_def)
  have h2: "badge_findUnique seed ''b1'' = Some primeiro_reporte"
    by (simp add: badge_findUnique_def seed_def primeiro_reporte_def)
  have h3: "''b1'' \<noteq> []"
    by simp
  have h4: "userBadge_findUnique seed ''A'' ''b1'' = None"
    by (simp add: userBadge_findUnique_def seed_def)
  have v: "points maria = 450" "badge_points primeiro_reporte = 10"
    "badge_name primeiro_reporte = ''Primeiro Reporte''"
    "userBadges seed = []" "contributions seed = []"
    by (simp_all add: maria_def primeiro_reporte_def seed_def)
  from badge_unlock_exactly_once [OF h1 h2 h3, of 5 6] h4
  obtain r d' where
    "unlockBadge seed ''A'' (Some ''b1'') 5 = (Inr r, d')"
    "ur_pointsEarned r = 10"
    "userBadges d' = [\<lparr>ub_userId = ''A'', ub_badgeId = ''b1'', unlockedAt = 5\<rparr>]"
    "user_findUnique d' ''A'' = Some (maria\<lparr>points := 460\<rparr>)"
    "contributions d' =
        [\<lparr>c_userId = ''A'', c_type = ''badge_unlocked'', c_points = 10,
          c_description = ''Desbloqueou badge: Primeiro Reporte'', c_createdAt = 5\<rparr>]"
    "unlockBadge d' ''A'' (Some ''b1'') 6 = (Inl BadgeAlreadyUnlocked, d')"
    unfolding v by auto
  moreover from this have "userBadge_findUnique d' ''A'' ''b1'' \<noteq> None"
    by (simp add: userBadge_findUnique_def)
  ultimately have first: "\<exists>r d'. unlockBadge seed ''A'' (Some ''b1'') 5 = (Inr r, d') \<and>
      ur_pointsEarned r = 10 \<and>
      userBadges d' = [\<lparr>ub_userId = ''A'', ub_badgeId = ''b1'', unlockedAt = 5\<rparr>] \<and>
      user_findUnique d' ''A'' = Some (maria\<lparr>points := 460\<rparr>) \<and>
      contributions d' =
        [\<lparr>c_userId = ''A'', c_type = ''badge_unlocked'', c_points = 10,
          c_description = ''Desbloqueou badge: Primeiro Reporte'', c_createdAt = 5\<rparr>] \<and>
      userBadge_findUnique d' ''A'' ''b1'' \<noteq> None \<and>
      unlockBadge d' ''A'' (Some ''b1'') 6 = (Inl BadgeAlreadyUnlocked, d')"
    by blast
  have k1: "user_findUnique unlocked ''A'' = Some (maria\<lparr>points := 460\<rparr>)"
    by (simp add: user_findUnique_def unlocked_def seed_def maria_def)
  have k2: "badge_findUnique unlocked ''b1'' = Some primeiro_reporte"
    by (simp add: badge_findUnique_def unlocked_def seed_def primeiro_reporte_def)
  have k4: "userBadge_findUnique unlocked ''A'' ''b1'' \<noteq> None"
    by (simp add: userBadge_findUnique_def unlocked_def)
  from badge_unlock_exactly_once [OF k1 k2 h3, of 6] k4
  have second: "unlockBadge unlocked ''A'' (Some ''b1'') 6 = (Inl BadgeAlreadyUnlocked, unlocked)"
    by blast
  show ?thesis
    using h1 h2 h4 first k4 second by blast
qed

section \<open>The streak read view\<close>

text \<open>
  C8, as the claim states it, at the boundary: a user with a streak of 5 who was last
  active exactly 48 hours ago. The difference is not greater than 48 hours, so the claim
  has the stored streak displayed; the view displays zero.
\<close>

theorem streak_view_boundary_counterexample:
  "\<not> (sv_currentStreak (projr (fst (getStreak seed ''C'' grace_ms)))
        = (if grace_ms - lastActiveAt ana > grace_ms then 0 else currentStreak ana))
   \<and> user_findUnique seed ''C'' = Some ana
   \<and> sv_currentStreak (projr (fst (getStreak seed ''C'' grace_ms))) = 0
   \<and> currentStreak ana = 5 \<and> grace_ms - lastActiveAt ana = grace_ms"
proof -
  have h: "user_findUnique seed ''C'' = Some ana"
    by (simp add: user_findUnique_def seed_def maria_def joao_def ana_def)
  have "\<not> hoursSince grace_ms (lastActiveAt ana) < 48"
    by (simp add: hoursSince_lt_48 grace_ms_def ana_def)
  then have "sv_currentStreak (projr (fst (getStreak seed ''C'' grace_ms))) = 0"
    using h by (simp add: getStreak_def Let_def)
  then show ?thesis
    using h by (simp add: ana_def)
qed

text \<open>
  C8, amended. GET /:id/streak of an existing user writes nothing: the store after the
  read is the store before it, so the stored streak counters and \<open>lastActiveAt\<close> are
  unchanged. The displayed streak is zero when now is 48 hours or more after
  \<open>lastActiveAt\<close>, and the stored current streak when it is less than 48 hours after it.
\<close>

theorem streak_view_grace:
  assumes "user_findUnique d i = Some u"
  shows "\<exists>v. getStreak d i now = (Inr v, d) \<and>
     sv_currentStreak v = (if now - lastActiveAt u \<ge> 48 * (1000 * 60 * 60) then 0
                           else currentStreak u) \<and>
     sv_streakActive v = (now - lastActiveAt u < 48 * (1000 * 60 * 60)) \<and>
     sv_longestStreak v = longestStreak u \<and> sv_lastActiveAt v = lastActiveAt u"
  using assms by (simp add: getStreak_def Let_def hoursSince_lt_48)

theorem streak_view_grace_witness:
  "user_findUnique seed ''C'' = Some ana \<and>
   (\<exists>v. getStreak seed ''C'' grace_ms = (Inr v, seed) \<and> sv_currentStreak v = 0) \<and>
   (\<exists>v. getStreak seed ''C'' (grace_ms - 1) = (Inr v, seed) \<and> sv_currentStreak v = 5)"
proof -
  have h: "user_findUnique seed ''C'' = Some ana"
    by (simp add: user_findUnique_def seed_def maria_def joao_def ana_def)
  from streak_view_grace [OF h, of grace_ms] streak_view_grace [OF h, of "grace_ms - 1"]
  show ?thesis
    using h by (auto simp: grace_ms_def ana_def)
qed

section \<open>The progress to the next level\<close>

text \<open>
  C9, as the claim states it, at a user with 250 points and level 3: the formula gives
  50 / 300 * 100, which is 50 / 3, and the reported value is 16.7.
\<close>

theorem level_progress_exact_counterexample:
  "g_levelProgress (projr (fst (getGamification leveled ''D'')))
     \<noteq> Num (min (real_of_int (250 mod 100) / real_of_int (3 * 100) * 100) 100)
   \<and> g_levelProgress (projr (fst (getGamification leveled ''D''))) = Num (167 / 10)
   \<and> g_points (projr (fst (getGamification leveled ''D''))) = 250
   \<and> g_level (projr (fst (getGamification leveled ''D''))) = 3"
proof -
  have r: "js_rem 250 100 = 50"
    by (simp add: js_rem_def)
  have p: "toFixed1 (js_min (js_times (js_div 50 300) 100) 100) = Num (167 / 10)"
    by (simp add: js_div_def double_eval)
  have run: "fst (getGamification leveled ''D'') =
     Inr \<lparr>g_points = 250, g_level = 3, g_rank = 1, g_levelProgress = Num (167 / 10),
          g_pointsToNextLevel = 250, g_streak_current = 0, g_streak_longest = 0,
          g_streak_lastActive = 0\<rparr>"
    by (simp add: getGamification_def Let_def user_findUnique_def leveled_def r p
        user_count_points_gt_def)
  show ?thesis
    unfolding run by simp
qed

text \<open>
  C9, amended. For an existing user, the progress reported by GET /:id/gamification is
  the value of (points % 100) / (level * 100) * 100 with the stored level, computed in
  double precision, clamped to at most 100 and then rendered with one digit after the
  point. For a stored level that is not zero (and fits the 32-bit column) it is a
  multiple of one tenth within one twentieth, plus the rounding error of the two double
  operations (at most \<open>2\<^sup>-\<^sup>4\<^sup>4\<close>), of the exact clamped value of the formula. For a
  stored level of zero the quotient is not finite: the report is not a number for a
  zero remainder, 100 for a positive and minus infinity for a negative one. For
  non-negative points the remainder \<^verbatim>\<open>%\<close> is the points modulo 100.
\<close>

theorem level_progress_formula:
  assumes "user_findUnique d i = Some u"
  shows "\<exists>g. getGamification d i = (Inr g, d) \<and>
     g_levelProgress g =
       toFixed1 (js_min (js_times (js_div (js_rem (points u) 100) (level u * 100)) 100) 100) \<and>
     (level u \<noteq> 0 \<and> \<bar>level u\<bar> < 2 ^ 31 \<longrightarrow>
        (\<exists>y. g_levelProgress g = Num y \<and> (\<exists>k::int. y = real_of_int k / 10) \<and>
           \<bar>y - min (real_of_int (js_rem (points u) 100) / real_of_int (level u * 100) * 100)
                  100\<bar> \<le> 1 / 20 + 1 / 2 ^ 44)) \<and>
     (level u = 0 \<longrightarrow>
        g_levelProgress g =
          (if js_rem (points u) 100 = 0 then NaN
           else if 0 < js_rem (points u) 100 then Num 100 else NegInf)) \<and>
     (0 \<le> points u \<longrightarrow> js_rem (points u) 100 = points u mod 100)"
proof -
  let ?a = "js_rem (points u) 100"
  let ?v = "toFixed1 (js_min (js_times (js_div ?a (level u * 100)) 100) 100)"
  let ?X = "real_of_int ?a / real_of_int (level u * 100) * 100"
  let ?g = "\<lparr>g_points = points u, g_level = level u,
             g_rank = int (user_count_points_gt d (points u)) + 1,
             g_levelProgress = ?v,
             g_pointsToNextLevel = level u * 100 - ?a,
             g_streak_current = currentStreak u, g_streak_longest = longestStreak u,
             g_streak_lastActive = lastActiveAt u\<rparr>"
  have run: "getGamification d i = (Inr ?g, d)"
    using assms by (simp add: getGamification_def Let_def)
  have gv: "g_levelProgress ?g = ?v"
    by simp
  have finite: "\<exists>y. ?v = Num y \<and> (\<exists>k::int. y = real_of_int k / 10) \<and>
      \<bar>y - min ?X 100\<bar> \<le> 1 / 20 + 1 / 2 ^ 44"
    if nz: "level u \<noteq> 0" and rng: "\<bar>level u\<bar> < 2 ^ 31"
  proof -
    have "\<bar>?a\<bar> < 100"
      by (rule js_rem_100_bound)
    from level_progress_error [OF this nz rng]
    obtain p where p: "js_times (js_div ?a (level u * 100)) 100 = Num p"
      and perr: "\<bar>p - ?X\<bar> \<le> 1 / 2 ^ 44"
      by blast
    define y where "y = sgn (min p 100) * real_of_int \<lfloor>\<bar>min p 100\<bar> * 10 + 1 / 2\<rfloor> / 10"
    have y: "toFixed1 (Num (min p 100)) = Num y"
      by (simp add: y_def)
    have vy: "?v = Num y"
      unfolding p using y by simp
    from toFixed1_near [OF y]
    have near: "\<bar>y - min p 100\<bar> \<le> 1 / 20" and tenth: "\<exists>k::int. y = real_of_int k / 10"
      by simp_all
    have "\<bar>min p 100 - min ?X 100\<bar> \<le> \<bar>p - ?X\<bar>"
      by linarith
    with perr near have "\<bar>y - min ?X 100\<bar> \<le> 1 / 20 + 1 / 2 ^ 44"
      by linarith
    with vy tenth show ?thesis by blast
  qed
  have c2: "level u \<noteq> 0 \<and> \<bar>level u\<bar> < 2 ^ 31 \<longrightarrow>
        (\<exists>y. g_levelProgress ?g = Num y \<and> (\<exists>k::int. y = real_of_int k / 10) \<and>
           \<bar>y - min ?X 100\<bar> \<le> 1 / 20 + 1 / 2 ^ 44)"
    unfolding gv using finite by blast
  have c3: "level u = 0 \<longrightarrow>
        g_levelProgress ?g =
          (if ?a = 0 then NaN else if 0 < ?a then Num 100 else NegInf)"
    unfolding gv by (simp add: js_div_def)
  have c4: "0 \<le> points u \<longrightarrow> ?a = points u mod 100"
    by (simp add: js_rem_nonneg)
  show ?thesis
    by (intro exI [of _ ?g] conjI run gv c2 c3 c4)
qed

theorem level_progress_formula_witness:
  "user_findUnique leveled ''D'' = Some (hd (users leveled)) \<and>
   level (hd (users leveled)) \<noteq> 0 \<and> \<bar>level (hd (users leveled))\<bar> < 2 ^ 31 \<and>
   0 \<le> points (hd (users leveled)) \<and>
   (\<exists>g y. getGamification leveled ''D'' = (Inr g, leveled) \<and> g_levelProgress g = Num y \<and>
      \<bar>y - 50 / 3\<bar> \<le> 1 / 20 + 1 / 2 ^ 44 \<and> (\<exists>k::int. y = real_of_int k / 10) \<and>
      y \<noteq> real_of_int (points (hd (users leveled)) mod 100)) \<and>
   user_findUnique progress_cases ''T'' = Some (hd (users progress_cases)) \<and>
   (\<exists>g. getGamification progress_cases ''T'' = (Inr g, progress_cases) \<and>
      g_levelProgress g = Num (36 / 5)) \<and>
   user_findUnique progress_cases ''Z'' = Some (users progress_cases ! 1) \<and>
   level (users progress_cases ! 1) = 0 \<and>
   (\<exists>g. getGamification progress_cases ''Z'' = (Inr g, progress_cases) \<and>
      g_levelProgress g = NegInf)"
proof -
  have h: "user_findUnique leveled ''D'' = Some (hd (users leveled))"
    by (simp add: user_findUnique_def leveled_def)
  have v: "points (hd (users leveled)) = 250" "level (hd (users leveled)) = 3"
    by (simp_all add: leveled_def)
  have r: "js_rem 250 100 = 50" "js_rem 329 100 = 29" "js_rem (- 50) 100 = - 50"
    by (simp_all add: js_rem_def)
  from level_progress_formula [OF h]
  obtain g y where
    run: "getGamification leveled ''D'' = (Inr g, leveled)" "g_levelProgress g = Num y" and
    near: "\<bar>y - min (real_of_int (js_rem (points (hd (users leveled))) 100)
               / real_of_int (level (hd (users leveled)) * 100) * 100) 100\<bar>
             \<le> 1 / 20 + 1 / 2 ^ 44" and
    tenth: "\<exists>k::int. y = real_of_int k / 10"
    unfolding v by auto
  from near have n: "\<bar>y - 50 / 3\<bar> \<le> 1 / 20 + 1 / 2 ^ 44"
    unfolding v r by simp
  then have "y \<noteq> real_of_int (points (hd (users leveled)) mod 100)"
    unfolding v by auto
  with run n tenth have first:
    "\<exists>g y. getGamification leveled ''D'' = (Inr g, leveled) \<and> g_levelProgress g = Num y \<and>
      \<bar>y - 50 / 3\<bar> \<le> 1 / 20 + 1 / 2 ^ 44 \<and> (\<exists>k::int. y = real_of_int k / 10) \<and>
      y \<noteq> real_of_int (points (hd (users leveled)) mod 100)"
    by blast
  have ht: "user_findUnique progress_cases ''T'' = Some (hd (users progress_cases))"
    by (simp add: user_findUnique_def progress_cases_def)
  have vt: "points (hd (users progress_cases)) = 329" "level (hd (users progress_cases)) = 4"
    by (simp_all add: progress_cases_def)
  have pt: "toFixed1 (js_min (js_times (js_div 29 400) 100) 100) = Num (36 / 5)"
    by (simp add: js_div_def double_eval)
  from level_progress_formula [OF ht]
  have second: "\<exists>g. getGamification progress_cases ''T'' = (Inr g, progress_cases) \<and>
      g_levelProgress g = Num (36 / 5)"
    unfolding vt r using pt by auto
  have hz: "user_findUnique progress_cases ''Z'' = Some (users progress_cases ! 1)"
    by (simp add: user_findUnique_def progress_cases_def)
  have vz: "points (users progress_cases ! 1) = - 50" "level (users progress_cases ! 1) = 0"
    by (simp_all add: progress_cases_def)
  from level_progress_formula [OF hz]
  have third: "\<exists>g. getGamification progress_cases ''Z'' = (Inr g, progress_cases) \<and>
      g_levelProgress g = NegInf"
    unfolding vz r by auto
  show ?thesis
    using h v first ht second hz vz third by simp
qed

section \<open>The level of a point total\<close>




section \<open>Ranks\<close>

text \<open>
  C6. For every existing user, the rank reported for the user alone (GET /user/:userId
  of the statistics, and GET /:id/gamification) is the number of users with strictly
  more points, plus one. The paginated ranking (GET /api/ranking, page at least 1) is
  the page cut out of the stored users put in descending order of points: the ordered
  list holds exactly the stored users, each entry carries the id, name and points of
  its user, and the entries are numbered consecutively from the offset of the page. A
  first page that is long enough lists every stored user, and when no two users have
  equal points the position of every entry is the rank reported for that user alone.
  With the three users of 450, 320 and 280 points and no others, in whatever order they
  are stored, the ranks reported for them alone are 1, 2 and 3, and page 1 with limit
  10 lists them in this order with the positions 1, 2 and 3.
\<close>

theorem rank_is_users_above_plus_one:
  assumes "user_findUnique d i = Some u" and "1 \<le> page"
  shows
    "(\<exists>r. getUserStats d i = (Inr r, d) \<and>
        st_rank r = int (length (filter (\<lambda>x. points x > points u) (users d))) + 1) \<and>
     (\<exists>g. getGamification d i = (Inr g, d) \<and>
        g_rank g = int (length (filter (\<lambda>x. points x > points u) (users d))) + 1) \<and>
     (\<exists>r. getRanking som d now qt tk page = (Inr r, d) \<and>
        sorted_wrt (\<lambda>a b. re_points a \<ge> re_points b) (rr_ranking r) \<and>
        map re_rank (rr_ranking r) =
          map (\<lambda>k. (page - 1) * int tk + int k + 1) [0..<length (rr_ranking r)] \<and>
        map (\<lambda>e. (re_id e, re_name e, re_points e, re_contributions e, re_memberSince e))
            (rr_ranking r) =
          map (\<lambda>x. (user_id x, user_name x, points x, count_contributions d (user_id x),
                     createdAt x))
            (take tk (drop (nat ((page - 1) * int tk)) (orderBy_points_desc (users d)))) \<and>
        mset (orderBy_points_desc (users d)) = mset (users d) \<and>
        sorted_wrt (\<lambda>a b. points a \<ge> points b) (orderBy_points_desc (users d)) \<and>
        rr_total r = length (users d) \<and>
        (page = 1 \<and> length (users d) \<le> tk \<longrightarrow>
           mset (map (\<lambda>e. (re_id e, re_points e)) (rr_ranking r))
             = mset (map (\<lambda>x. (user_id x, points x)) (users d))) \<and>
        (distinct (map points (users d)) \<longrightarrow>
           (\<forall>e \<in> set (rr_ranking r).
              re_rank e = int (length (filter (\<lambda>x. points x > re_points e) (users d))) + 1))) \<and>
     map (\<lambda>j. st_rank (projr (fst (getUserStats seed j)))) [''A'', ''B'', ''C''] = [1, 2, 3] \<and>
     map (\<lambda>e. (re_rank e, re_id e, re_points e))
         (rr_ranking (projr (fst (getRanking som seed now None 10 1))))
       = [(1, ''A'', 450), (2, ''B'', 320), (3, ''C'', 280)] \<and>
     map (\<lambda>j. st_rank (projr (fst (getUserStats shuffled j)))) [''A'', ''B'', ''C''] = [1, 2, 3] \<and>
     map (\<lambda>e. (re_rank e, re_id e, re_points e))
         (rr_ranking (projr (fst (getRanking som shuffled now None 10 1))))
       = [(1, ''A'', 450), (2, ''B'', 320), (3, ''C'', 280)]"
proof (intro conjI)
  show "\<exists>r. getUserStats d i = (Inr r, d) \<and>
        st_rank r = int (length (filter (\<lambda>x. points x > points u) (users d))) + 1"
    using assms(1) by (simp add: getUserStats_def Let_def user_count_points_gt_def)
next
  show "\<exists>g. getGamification d i = (Inr g, d) \<and>
        g_rank g = int (length (filter (\<lambda>x. points x > points u) (users d))) + 1"
    using assms(1) by (simp add: getGamification_def Let_def user_count_points_gt_def)
next
  define sk where "sk = nat ((page - 1) * int tk)"
  define s where "s = orderBy_points_desc (users d)"
  define found where "found = take tk (drop sk s)"
  define mk where "mk = (\<lambda>index (usr::user).
                 \<lparr>re_rank = (page - 1) * int tk + int index + 1, re_id = user_id usr,
                  re_name = user_name usr, re_points = points usr,
                  re_contributions = count_contributions d (user_id usr),
                  re_memberSince = createdAt usr\<rparr>)"
  define ranking where "ranking = map2 mk [0..<length found] found"
  define r where "r = \<lparr>rr_ranking = ranking, rr_page = page, rr_limit = tk,
      rr_total = length (users d),
      rr_totalPages = (if tk = 0 then None
                       else Some \<lceil>real (length (users d)) / real tk\<rceil>)\<rparr>"
  have run: "getRanking som d now qt tk page = (Inr r, d)"
    unfolding getRanking_found [OF assms(2)] r_def ranking_def found_def s_def sk_def mk_def
    by simp
  have rk: "rr_ranking r = ranking" and tot: "rr_total r = length (users d)"
    by (simp_all add: r_def)
  have skip: "int sk = (page - 1) * int tk"
  proof -
    have "0 \<le> (page - 1) * int tk"
      using assms(2) by (intro mult_nonneg_nonneg) simp_all
    then show ?thesis by (simp add: sk_def)
  qed
  have len: "length ranking = length found"
    by (simp add: ranking_def)
  have srt_s: "sorted_wrt (\<lambda>a b. points a \<ge> points b) s"
    unfolding s_def by (rule orderBy_points_desc_sorted)
  have srt: "sorted_wrt (\<lambda>a b. points a \<ge> points b) found"
    unfolding found_def by (intro sorted_wrt_take sorted_wrt_drop srt_s)
  have "map re_points ranking = map points found"
    unfolding ranking_def by (rule map2_upt_snd) (simp add: mk_def)
  then have "sorted_wrt (\<lambda>a b. a \<ge> b) (map re_points ranking)"
    using srt by (simp only: sorted_wrt_map)
  then have c1: "sorted_wrt (\<lambda>a b. re_points a \<ge> re_points b) ranking"
    by (simp only: sorted_wrt_map)
  have "map re_rank ranking = map (\<lambda>k. re_rank (mk k (found ! k))) [0..<length found]"
    unfolding ranking_def by (rule map2_upt_fst)
  then have c2: "map re_rank ranking
      = map (\<lambda>k. (page - 1) * int tk + int k + 1) [0..<length ranking]"
    unfolding len by (simp add: mk_def)
  have c3: "map (\<lambda>e. (re_id e, re_name e, re_points e, re_contributions e, re_memberSince e))
            ranking =
          map (\<lambda>x. (user_id x, user_name x, points x, count_contributions d (user_id x),
                     createdAt x)) found"
    unfolding ranking_def by (rule map2_upt_snd) (simp add: mk_def)
  have c4: "mset s = mset (users d)"
    unfolding s_def by (rule orderBy_points_desc_mset)
  have c5: "mset (map (\<lambda>e. (re_id e, re_points e)) ranking)
             = mset (map (\<lambda>x. (user_id x, points x)) (users d))"
    if "page = 1 \<and> length (users d) \<le> tk"
  proof -
    from that have "sk = 0" by (simp add: sk_def)
    moreover have "length s = length (users d)"
      unfolding s_def by (rule orderBy_points_desc_length)
    ultimately have "found = s"
      using that by (simp add: found_def)
    moreover have "map (\<lambda>e. (re_id e, re_points e)) ranking
        = map (\<lambda>x. (user_id x, points x)) found"
      unfolding ranking_def by (rule map2_upt_snd) (simp add: mk_def)
    ultimately have "mset (map (\<lambda>e. (re_id e, re_points e)) ranking)
        = image_mset (\<lambda>x. (user_id x, points x)) (mset s)"
      by simp
    then show ?thesis unfolding c4 by simp
  qed
  have c6: "\<forall>e \<in> set ranking.
      re_rank e = int (length (filter (\<lambda>x. points x > re_points e) (users d))) + 1"
    if dist: "distinct (map points (users d))"
  proof
    fix e
    assume "e \<in> set ranking"
    then obtain k where k: "k < length ranking" and e: "e = ranking ! k"
      by (auto simp: in_set_conv_nth)
    from k have kf: "k < length found" by (simp add: len)
    have ek: "e = mk k (found ! k)"
      unfolding e ranking_def by (rule map2_upt_nth [OF kf])
    have "length (filter (\<lambda>x. points x > points (found ! k)) (users d)) = sk + k"
      using ranking_rank_is_count [OF dist, of k tk sk] kf
      unfolding found_def s_def by simp
    then have "int (length (filter (\<lambda>x. points x > re_points e) (users d))) + 1
        = int sk + int k + 1"
      unfolding ek by (simp add: mk_def)
    also have "\<dots> = re_rank e"
      unfolding ek skip by (simp add: mk_def)
    finally show "re_rank e
        = int (length (filter (\<lambda>x. points x > re_points e) (users d))) + 1"
      by simp
  qed
  have d1: "sorted_wrt (\<lambda>a b. re_points a \<ge> re_points b) (rr_ranking r)"
    unfolding rk by (rule c1)
  have d2: "map re_rank (rr_ranking r) =
          map (\<lambda>k. (page - 1) * int tk + int k + 1) [0..<length (rr_ranking r)]"
    unfolding rk by (rule c2)
  have d3: "map (\<lambda>e. (re_id e, re_name e, re_points e, re_contributions e, re_memberSince e))
            (rr_ranking r) =
          map (\<lambda>x. (user_id x, user_name x, points x, count_contributions d (user_id x),
                     createdAt x))
            (take tk (drop (nat ((page - 1) * int tk)) (orderBy_points_desc (users d))))"
    using c3 unfolding rk found_def s_def sk_def .
  have d4: "mset (orderBy_points_desc (users d)) = mset (users d)"
    using c4 unfolding s_def .
  have d5: "sorted_wrt (\<lambda>a b. points a \<ge> points b) (orderBy_points_desc (users d))"
    using srt_s unfolding s_def .
  have d6: "page = 1 \<and> length (users d) \<le> tk \<longrightarrow>
           mset (map (\<lambda>e. (re_id e, re_points e)) (rr_ranking r))
             = mset (map (\<lambda>x. (user_id x, points x)) (users d))"
    unfolding rk using c5 by (rule impI)
  have d7: "distinct (map points (users d)) \<longrightarrow>
           (\<forall>e \<in> set (rr_ranking r).
              re_rank e = int (length (filter (\<lambda>x. points x > re_points e) (users d))) + 1)"
    unfolding rk using c6 by (rule impI)
  show "\<exists>r. getRanking som d now qt tk page = (Inr r, d) \<and>
        sorted_wrt (\<lambda>a b. re_points a \<ge> re_points b) (rr_ranking r) \<and>
        map re_rank (rr_ranking r) =
          map (\<lambda>k. (page - 1) * int tk + int k + 1) [0..<length (rr_ranking r)] \<and>
        map (\<lambda>e. (re_id e, re_name e, re_points e, re_contributions e, re_memberSince e))
            (rr_ranking r) =
          map (\<lambda>x. (user_id x, user_name x, points x, count_contributions d (user_id x),
                     createdAt x))
            (take tk (drop (nat ((page - 1) * int tk)) (orderBy_points_desc (users d)))) \<and>
        mset (orderBy_points_desc (users d)) = mset (users d) \<and>
        sorted_wrt (\<lambda>a b. points a \<ge> points b) (orderBy_points_desc (users d)) \<and>
        rr_total r = length (users d) \<and>
        (page = 1 \<and> length (users d) \<le> tk \<longrightarrow>
           mset (map (\<lambda>e. (re_id e, re_points e)) (rr_ranking r))
             = mset (map (\<lambda>x. (user_id x, points x)) (users d))) \<and>
        (distinct (map points (users d)) \<longrightarrow>
           (\<forall>e \<in> set (rr_ranking r).
              re_rank e = int (length (filter (\<lambda>x. points x > re_points e) (users d))) + 1))"
    by (intro exI [of _ r] conjI run d1 d2 d3 d4 d5 tot d6 d7)
next
  show "map (\<lambda>j. st_rank (projr (fst (getUserStats seed j)))) [''A'', ''B'', ''C''] = [1, 2, 3]"
    by (simp add: getUserStats_def Let_def user_findUnique_def user_count_points_gt_def
        seed_def maria_def joao_def ana_def)
next
  have o: "orderBy_points_desc (users seed) = [maria, joao, ana]"
    by (simp add: orderBy_points_desc_def seed_def maria_def joao_def ana_def)
  show "map (\<lambda>e. (re_rank e, re_id e, re_points e))
         (rr_ranking (projr (fst (getRanking som seed now None 10 1))))
       = [(1, ''A'', 450), (2, ''B'', 320), (3, ''C'', 280)]"
    by (simp add: getRanking_def Let_def o enumerate_eq_zip upt_rec maria_def joao_def ana_def)
next
  show "map (\<lambda>j. st_rank (projr (fst (getUserStats shuffled j)))) [''A'', ''B'', ''C'']
      = [1, 2, 3]"
    by (simp add: getUserStats_def Let_def user_findUnique_def user_count_points_gt_def
        shuffled_def seed_def maria_def joao_def ana_def)
next
  have o: "orderBy_points_desc (users shuffled) = [maria, joao, ana]"
    by (simp add: orderBy_points_desc_def shuffled_def seed_def maria_def joao_def ana_def)
  show "map (\<lambda>e. (re_rank e, re_id e, re_points e))
         (rr_ranking (projr (fst (getRanking som shuffled now None 10 1))))
       = [(1, ''A'', 450), (2, ''B'', 320), (3, ''C'', 280)]"
    by (simp add: getRanking_def Let_def o enumerate_eq_zip upt_rec maria_def joao_def ana_def)
qed


theorem rank_is_users_above_plus_one_witness:
  "user_findUnique shuffled ''B'' = Some joao \<and> (1::int) \<le> 1 \<and>
   length (users shuffled) \<le> 10 \<and> distinct (map points (users shuffled)) \<and>
   (\<exists>r. getUserStats shuffled ''B'' = (Inr r, shuffled) \<and> st_rank r = 2) \<and>
   (\<exists>g. getGamification shuffled ''B'' = (Inr g, shuffled) \<and> g_rank g = 2) \<and>
   (\<exists>r. getRanking (\<lambda>t. t) shuffled 0 None 10 1 = (Inr r, shuffled) \<and>
      mset (map (\<lambda>e. (re_id e, re_points e)) (rr_ranking r))
        = {#(''A'', 450), (''B'', 320), (''C'', 280)#} \<and>
      rr_total r = 3 \<and>
      (\<forall>e \<in> set (rr_ranking r).
         re_rank e = int (length (filter (\<lambda>x. points x > re_points e) (users shuffled))) + 1))"
proof -
  have h: "user_findUnique shuffled ''B'' = Some joao"
    by (simp add: user_findUnique_def shuffled_def seed_def maria_def joao_def ana_def)
  have p: "(1::int) \<le> 1"
    by simp
  have l: "length (users shuffled) \<le> 10" and l3: "length (users shuffled) = 3"
    by (simp_all add: shuffled_def)
  have dist: "distinct (map points (users shuffled))"
    by (simp add: shuffled_def maria_def joao_def ana_def)
  have c: "int (length (filter (\<lambda>x. points x > points joao) (users shuffled))) + 1 = 2"
    by (simp add: shuffled_def maria_def joao_def ana_def)
  have m: "mset (map (\<lambda>x. (user_id x, points x)) (users shuffled))
      = {#(''A'', 450), (''B'', 320), (''C'', 280)#}"
    by (simp add: shuffled_def maria_def joao_def ana_def)
  from rank_is_users_above_plus_one [OF h p, of "\<lambda>t. t" 0 None 10]
  have a: "\<exists>r. getUserStats shuffled ''B'' = (Inr r, shuffled) \<and> st_rank r = 2"
    and b: "\<exists>g. getGamification shuffled ''B'' = (Inr g, shuffled) \<and> g_rank g = 2"
    and r: "\<exists>r. getRanking (\<lambda>t. t) shuffled 0 None 10 1 = (Inr r, shuffled) \<and>
      mset (map (\<lambda>e. (re_id e, re_points e)) (rr_ranking r))
        = {#(''A'', 450), (''B'', 320), (''C'', 280)#} \<and>
      rr_total r = 3 \<and>
      (\<forall>e \<in> set (rr_ranking r).
         re_rank e = int (length (filter (\<lambda>x. points x > re_points e) (users shuffled))) + 1)"
    unfolding c using l dist unfolding m l3 by blast+
  show ?thesis
    using h p l dist a b r by blast
qed

text \<open>
  C7. The handler computes the date filter of the monthly ranking (the first instant of
  the current month) and never passes it to a query: the monthly ranking is the global
  ranking, whatever the start of the month and whenever the ledger rows were created. In
  the scenario the first user earned nothing since the start of the month and the second
  user earned 320 points since; the monthly ranking still lists the first user first,
  with the lifetime points and the count of all ledger rows.
\<close>

theorem monthly_ranking_ignores_window:
  "getRanking som d now (Some ''monthly'') tk page = getRanking som d now (Some ''global'') tk page \<and>
   getRanking som d now (Some ''monthly'') tk page = getRanking som' d now' (Some ''monthly'') tk page \<and>
   points_since windowed ''A'' 1000 = 0 \<and> points_since windowed ''B'' 1000 = 320 \<and>
   map (\<lambda>e. (re_rank e, re_id e, re_points e, re_contributions e))
       (rr_ranking (projr (fst (getRanking (\<lambda>t. 1000) windowed 5000 (Some ''monthly'') 10 1))))
     = [(1, ''A'', 450, 1), (2, ''B'', 320, 1), (3, ''C'', 280, 0)]"
proof (intro conjI)
  show "getRanking som d now (Some ''monthly'') tk page
      = getRanking som d now (Some ''global'') tk page"
    by (simp add: getRanking_def Let_def)
next
  show "getRanking som d now (Some ''monthly'') tk page
      = getRanking som' d now' (Some ''monthly'') tk page"
    by (simp add: getRanking_def Let_def)
next
  show "points_since windowed ''A'' 1000 = 0" and "points_since windowed ''B'' 1000 = 320"
    by (simp_all add: points_since_def windowed_def)
next
  have o: "orderBy_points_desc (users windowed) = [maria, joao, ana]"
    by (simp add: orderBy_points_desc_def windowed_def seed_def maria_def joao_def ana_def)
  have c: "count_contributions windowed ''A'' = 1" "count_contributions windowed ''B'' = 1"
    "count_contributions windowed ''C'' = 0"
    by (simp_all add: count_contributions_def windowed_def)
  show "map (\<lambda>e. (re_rank e, re_id e, re_points e, re_contributions e))
       (rr_ranking (projr (fst (getRanking (\<lambda>t. 1000) windowed 5000 (Some ''monthly'') 10 1))))
     = [(1, ''A'', 450, 1), (2, ''B'', 320, 1), (3, ''C'', 280, 0)]"
    by (simp add: getRanking_def Let_def o enumerate_eq_zip upt_rec maria_def joao_def ana_def c)
qed

end
